theory Spec2Isabelle
  imports Main "HOL-Library.Word"
begin

section \<open>Python values used by terribleconsolegui.py\<close>

text \<open>
  A counter holds a Python int, or one of the two float infinities that the default
  bounds \<^verbatim>\<open>(-inf, inf)\<close> bring in: wrapping at an infinite bound assigns the infinity
  to the count. Adding or subtracting 1 leaves an infinity unchanged, as in Python.
\<close>

datatype num = NegInf | Fin int | PosInf

fun num_add :: "num \<Rightarrow> int \<Rightarrow> num" where
  "num_add NegInf k = NegInf"
| "num_add (Fin i) k = Fin (i + k)"
| "num_add PosInf k = PosInf"

text \<open>The exceptions the module can raise; \<open>SystemExit\<close> is what \<^verbatim>\<open>exit()\<close> raises.\<close>

datatype error =
  KeyError | ValueError | IndexError | ZeroDivisionError | TypeError | AttributeError
  | SystemExit

datatype outcome = Normal | Raised error

text \<open>A dynamically typed value: the text and the coordinates of a widget are strings or numbers.\<close>

datatype pyval = PStr string | PNum num

subsection \<open>\<^verbatim>\<open>str\<close> and \<^verbatim>\<open>str.zfill\<close>\<close>

fun str_nat :: "nat \<Rightarrow> string" where
  "str_nat n = (if n < 10 then [char_of (48 + n)]
                else str_nat (n div 10) @ [char_of (48 + n mod 10)])"

declare str_nat.simps [simp del]

definition str_int :: "int \<Rightarrow> string" where
  "str_int i = (if i < 0 then CHR ''-'' # str_nat (nat (- i)) else str_nat (nat i))"

fun str_num :: "num \<Rightarrow> string" where
  "str_num NegInf = ''-inf''"
| "str_num (Fin i) = str_int i"
| "str_num PosInf = ''inf''"

fun py_str :: "pyval \<Rightarrow> string" where
  "py_str (PStr s) = s"
| "py_str (PNum n) = str_num n"

definition zfill :: "string \<Rightarrow> int \<Rightarrow> string" where
  "zfill s width =
     (if width \<le> int (length s) then s
      else (let fill = replicate (nat width - length s) (CHR ''0'')
            in case s of
                 [] \<Rightarrow> fill
               | c # cs \<Rightarrow> if c = CHR ''+'' \<or> c = CHR ''-'' then c # fill @ cs
                           else fill @ s))"

subsection \<open>colorama's constants\<close>

definition Fore_RESET :: string where
  "Fore_RESET = CHR 0x1B # ''[39m''"

definition Back_RESET :: string where
  "Back_RESET = CHR 0x1B # ''[49m''"

definition Back_GREEN :: string where
  "Back_GREEN = CHR 0x1B # ''[42m''"

section \<open>Widgets\<close>

text \<open>
  Widgets are objects: an \<^verbatim>\<open>ElementList\<close> and the \<^verbatim>\<open>exclusive_to\<close> lists hold references
  to them, and \<^verbatim>\<open>select\<close> mutates other widgets through these references. The model keeps
  the objects in a heap from references to records. One record carries the attributes of
  the three classes \<^verbatim>\<open>GUIElement\<close>, \<^verbatim>\<open>GUICounter\<close>, \<^verbatim>\<open>GUIHiddenList\<close>; \<open>cls\<close> is the class
  of the object, which decides the method that a call dispatches to. The attributes of a
  subclass are not read by the methods of a base class. The attributes \<^verbatim>\<open>text\<close>, \<^verbatim>\<open>x\<close> and
  \<^verbatim>\<open>y\<close> are the fields \<open>text_of\<close>, \<open>x_of\<close> and \<open>y_of\<close>.
\<close>

type_synonym ref = nat

datatype cls = GUIElement | GUICounter | GUIHiddenList

record widget =
  cls :: cls
  text_of :: pyval
  x_of :: pyval
  y_of :: pyval
  selected :: bool
  sel_fore :: string
  sel_back :: string
  unsel_fore :: string
  unsel_back :: string
  exclusive_to :: "ref list"
  count :: num
  aux_count :: num
  align :: string
  padding :: int
  bounds :: "num \<times> num"
  aux_bounds :: "num \<times> num"
  wrap_bounds :: bool
  items :: "string list"
  wrap :: bool
  max_width :: int

text \<open>
  The terminal is outside the module: \<^verbatim>\<open>print_pos\<close> is recorded as an event with its
  arguments. The hooks \<^verbatim>\<open>GUIElement.cleanup\<close>, \<^verbatim>\<open>ElementList.init\<close> and
  \<^verbatim>\<open>ElementList.cleanup\<close> have the body \<^verbatim>\<open>pass\<close>; each call of one is recorded as an event
  as well, so that "the hook runs" is a statement about the trace.
\<close>

datatype event =
  PrintPos string pyval pyval string string
  | ElementCleanup ref
  | ListInit
  | ListCleanup

record state =
  heap :: "ref \<Rightarrow> widget"
  screen :: "event list"

definition print_pos :: "pyval \<Rightarrow> pyval \<Rightarrow> pyval \<Rightarrow> string \<Rightarrow> string \<Rightarrow> state \<Rightarrow> state" where
  "print_pos txt px py fore back s =
     s\<lparr>screen := screen s @ [PrintPos (py_str txt) px py fore back]\<rparr>"

subsection \<open>Constructors\<close>

definition GUIElement_init ::
  "pyval \<Rightarrow> pyval \<Rightarrow> pyval \<Rightarrow> string \<Rightarrow> string \<Rightarrow> string \<Rightarrow> string \<Rightarrow> bool \<Rightarrow> widget" where
  "GUIElement_init txt px py sf sb uf ub sel =
     \<lparr>cls = GUIElement, text_of = txt, x_of = px, y_of = py, selected = sel,
      sel_fore = sf, sel_back = sb, unsel_fore = uf, unsel_back = ub,
      exclusive_to = [],
      count = Fin 0, aux_count = Fin 0, align = ''left'', padding = 0,
      bounds = (NegInf, PosInf), aux_bounds = (NegInf, PosInf), wrap_bounds = True,
      items = [], wrap = False, max_width = 0\<rparr>"

text \<open>
  \<^verbatim>\<open>GUICounter.__init__\<close> takes the four colours and \<^verbatim>\<open>selected\<close> and passes constants to
  \<^verbatim>\<open>GUIElement.__init__\<close> in their place. The ignored parameters are of type \<open>pyval\<close>:
  \<^verbatim>\<open>GUIHiddenList.__init__\<close> calls this constructor positionally with one argument fewer than
  it has leading parameters, so that they receive a coordinate and colours shifted by one.
\<close>

definition GUICounter_init ::
  "pyval \<Rightarrow> pyval \<Rightarrow> pyval \<Rightarrow> pyval \<Rightarrow> pyval \<Rightarrow> pyval \<Rightarrow> pyval \<Rightarrow>
   num \<Rightarrow> num \<Rightarrow> string \<Rightarrow> int \<Rightarrow> num \<times> num \<Rightarrow> num \<times> num \<Rightarrow> bool \<Rightarrow> widget" where
  "GUICounter_init px py sf sb uf ub sel dflt dflt_aux al pad bnds aux_bnds wrap_bnds =
     (GUIElement_init (PNum dflt) px py Fore_RESET Back_GREEN Fore_RESET Back_RESET False)
       \<lparr>cls := GUICounter, count := dflt, aux_count := dflt_aux, align := al,
        padding := pad, bounds := bnds, aux_bounds := aux_bnds, wrap_bounds := wrap_bnds\<rparr>"

text \<open>Python's \<^verbatim>\<open>max\<close> over the lengths of the items.\<close>

definition max_len :: "string list \<Rightarrow> int" where
  "max_len xs = int (foldr max (map length xs) 0)"

definition GUIHiddenList_init ::
  "string list \<Rightarrow> pyval \<Rightarrow> pyval \<Rightarrow> pyval \<Rightarrow> pyval \<Rightarrow> pyval \<Rightarrow> pyval \<Rightarrow> pyval \<Rightarrow>
   int option \<Rightarrow> bool \<Rightarrow> error + widget" where
  "GUIHiddenList_init its px py sf sb uf ub sel max_w wrp =
     (case its of
        [] \<Rightarrow> Inl IndexError
      | first # _ \<Rightarrow>
          Inr ((GUICounter_init (PStr first) px py (PStr Fore_RESET) (PStr Back_GREEN)
                  (PStr Fore_RESET) (PStr Back_RESET)
                  (Fin 0) (Fin 0) ''left'' 0 (NegInf, PosInf) (NegInf, PosInf) True)
                 \<lparr>cls := GUIHiddenList, items := its, wrap := wrp,
                  max_width := (case max_w of None \<Rightarrow> max_len its | Some m \<Rightarrow> m)\<rparr>))"

subsection \<open>Rendering\<close>

definition GUIElement_update :: "pyval option \<Rightarrow> ref \<Rightarrow> state \<Rightarrow> state" where
  "GUIElement_update txt self s =
     (let w = heap s self;
          t = (case txt of None \<Rightarrow> text_of w | Some t' \<Rightarrow> t');
          fore = (if selected w then sel_fore w else unsel_fore w);
          back = (if selected w then sel_back w else unsel_back w)
      in print_pos t (x_of w) (y_of w) fore back s)"

definition GUICounter_update :: "ref \<Rightarrow> state \<Rightarrow> outcome \<times> state" where
  "GUICounter_update self s =
     (let w = heap s self
      in if align w = ''left''
         then (Normal, GUIElement_update (Some (PStr (str_num (count w)))) self s)
         else if align w = ''right''
         then (Normal,
               GUIElement_update (Some (PStr (zfill (str_num (count w)) (padding w)))) self s)
         else (Raised ValueError, s))"

text \<open>
  The property \<^verbatim>\<open>GUIHiddenList.current\<close>: \<^verbatim>\<open>self.items[self.count % len(self.items)]\<close>.
  The remainder by 0 raises; the remainder of a float infinity is nan, which is no index.
\<close>

definition current :: "widget \<Rightarrow> error + string" where
  "current w =
     (if length (items w) = 0 then Inl ZeroDivisionError
      else case count w of
             Fin i \<Rightarrow> Inr (items w ! nat (i mod int (length (items w))))
           | _ \<Rightarrow> Inl TypeError)"

definition GUIHiddenList_update :: "ref \<Rightarrow> state \<Rightarrow> outcome \<times> state" where
  "GUIHiddenList_update self s =
     (case current (heap s self) of
        Inl e \<Rightarrow> (Raised e, s)
      | Inr c \<Rightarrow> (Normal, GUIElement_update (Some (PStr c)) self s))"

text \<open>The call \<^verbatim>\<open>self.update()\<close>, dispatched on the class of the object.\<close>

definition update :: "ref \<Rightarrow> state \<Rightarrow> outcome \<times> state" where
  "update self s =
     (case cls (heap s self) of
        GUIElement \<Rightarrow> (Normal, GUIElement_update None self s)
      | GUICounter \<Rightarrow> GUICounter_update self s
      | GUIHiddenList \<Rightarrow> GUIHiddenList_update self s)"

subsection \<open>Selection\<close>

definition set_selected :: "ref \<Rightarrow> bool \<Rightarrow> state \<Rightarrow> state" where
  "set_selected r b s = s\<lparr>heap := (heap s)(r := (heap s r)\<lparr>selected := b\<rparr>)\<rparr>"

definition deselect :: "ref \<Rightarrow> state \<Rightarrow> outcome \<times> state" where
  "deselect self s = update self (set_selected self False s)"

text \<open>The loop of \<^verbatim>\<open>select\<close> over \<^verbatim>\<open>self.exclusive_to\<close>; an exception leaves the loop.\<close>

fun deselect_others :: "ref \<Rightarrow> ref list \<Rightarrow> state \<Rightarrow> outcome \<times> state" where
  "deselect_others self [] s = (Normal, s)"
| "deselect_others self (element # rest) s =
     (if selected (heap s element) \<and> element \<noteq> self
      then (case deselect element s of
              (Normal, s') \<Rightarrow> deselect_others self rest s'
            | (Raised e, s') \<Rightarrow> (Raised e, s'))
      else deselect_others self rest s)"

definition select :: "ref \<Rightarrow> state \<Rightarrow> outcome \<times> state" where
  "select self s =
     (case deselect_others self (exclusive_to (heap s self)) s of
        (Normal, s') \<Rightarrow> update self (set_selected self True s')
      | (Raised e, s') \<Rightarrow> (Raised e, s'))"

subsection \<open>Clearing\<close>

definition cleanup :: "ref \<Rightarrow> state \<Rightarrow> state" where
  "cleanup self s = s\<lparr>screen := screen s @ [ElementCleanup self]\<rparr>"

definition GUIElement_clear :: "int option \<Rightarrow> ref \<Rightarrow> state \<Rightarrow> state" where
  "GUIElement_clear len self s =
     (let w = heap s self;
          n = (case len of None \<Rightarrow> int (length (py_str (text_of w))) | Some k \<Rightarrow> k)
      in cleanup self
           (print_pos (PStr (replicate (nat n) (CHR '' ''))) (x_of w) (y_of w) Fore_RESET Back_RESET s))"

definition GUICounter_clear :: "int \<Rightarrow> ref \<Rightarrow> state \<Rightarrow> state" where
  "GUICounter_clear width self s =
     (let w = heap s self
      in GUIElement_clear
           (Some (max width (max (int (length (py_str (text_of w)))) (padding w)))) self s)"

definition GUIHiddenList_clear :: "ref \<Rightarrow> state \<Rightarrow> state" where
  "GUIHiddenList_clear self s = GUICounter_clear (max_width (heap s self)) self s"

text \<open>The call \<^verbatim>\<open>element.clear()\<close> without argument, dispatched on the class.\<close>

definition clear :: "ref \<Rightarrow> state \<Rightarrow> state" where
  "clear self s =
     (case cls (heap s self) of
        GUIElement \<Rightarrow> GUIElement_clear None self s
      | GUICounter \<Rightarrow> GUICounter_clear 0 self s
      | GUIHiddenList \<Rightarrow> GUIHiddenList_clear self s)"

section \<open>GUICounter\<close>

text \<open>
  Each of the four methods changes an attribute and then calls \<^verbatim>\<open>self.update()\<close>. The change
  of the attributes is a function on the record; the method stores the changed record and
  renders, so that the change is kept when the rendering raises.
\<close>

definition put :: "ref \<Rightarrow> widget \<Rightarrow> state \<Rightarrow> state" where
  "put r w s = s\<lparr>heap := (heap s)(r := w)\<rparr>"

definition increase_count :: "widget \<Rightarrow> widget" where
  "increase_count w =
     (if \<not> count w = snd (bounds w) then w\<lparr>count := num_add (count w) 1\<rparr>
      else if wrap_bounds w then w\<lparr>count := fst (bounds w)\<rparr>
      else w)"

definition decrease_count :: "widget \<Rightarrow> widget" where
  "decrease_count w =
     (if \<not> count w = fst (bounds w) then w\<lparr>count := num_add (count w) (- 1)\<rparr>
      else if wrap_bounds w then w\<lparr>count := snd (bounds w)\<rparr>
      else w)"

definition aux_increase_count :: "widget \<Rightarrow> widget" where
  "aux_increase_count w =
     (if \<not> count w = snd (aux_bounds w) then w\<lparr>aux_count := num_add (aux_count w) 1\<rparr>
      else if wrap_bounds w then w\<lparr>count := fst (aux_bounds w)\<rparr>
      else w)"

definition aux_decrease_count :: "widget \<Rightarrow> widget" where
  "aux_decrease_count w =
     (if \<not> count w = fst (aux_bounds w) then w\<lparr>aux_count := num_add (aux_count w) (- 1)\<rparr>
      else if wrap_bounds w then w\<lparr>count := snd (aux_bounds w)\<rparr>
      else w)"

definition GUICounter_increase :: "ref \<Rightarrow> state \<Rightarrow> outcome \<times> state" where
  "GUICounter_increase self s = update self (put self (increase_count (heap s self)) s)"

definition GUICounter_decrease :: "ref \<Rightarrow> state \<Rightarrow> outcome \<times> state" where
  "GUICounter_decrease self s = update self (put self (decrease_count (heap s self)) s)"

definition aux_increase :: "ref \<Rightarrow> state \<Rightarrow> outcome \<times> state" where
  "aux_increase self s =
     (if cls (heap s self) = GUIElement then (Raised AttributeError, s)
      else update self (put self (aux_increase_count (heap s self)) s))"

definition aux_decrease :: "ref \<Rightarrow> state \<Rightarrow> outcome \<times> state" where
  "aux_decrease self s =
     (if cls (heap s self) = GUIElement then (Raised AttributeError, s)
      else update self (put self (aux_decrease_count (heap s self)) s))"

section \<open>GUIHiddenList\<close>

definition hidden_increase_count :: "widget \<Rightarrow> widget" where
  "hidden_increase_count w =
     (if count w = Fin (int (length (items w)) - 1)
      then (if wrap w then w\<lparr>count := num_add (count w) 1\<rparr> else w)
      else w\<lparr>count := num_add (count w) 1\<rparr>)"

definition hidden_decrease_count :: "widget \<Rightarrow> widget" where
  "hidden_decrease_count w =
     (if count w = Fin 0
      then (if wrap w then w\<lparr>count := num_add (count w) (- 1)\<rparr> else w)
      else w\<lparr>count := num_add (count w) (- 1)\<rparr>)"

definition GUIHiddenList_increase :: "ref \<Rightarrow> state \<Rightarrow> outcome \<times> state" where
  "GUIHiddenList_increase self s =
     update self (put self (hidden_increase_count (heap s self)) s)"

definition GUIHiddenList_decrease :: "ref \<Rightarrow> state \<Rightarrow> outcome \<times> state" where
  "GUIHiddenList_decrease self s =
     update self (put self (hidden_decrease_count (heap s self)) s)"

text \<open>
  The calls \<^verbatim>\<open>increase()\<close> and \<^verbatim>\<open>decrease()\<close> on any widget, dispatched on the class:
  a plain \<^verbatim>\<open>GUIElement\<close> has no such attribute.
\<close>

definition increase :: "ref \<Rightarrow> state \<Rightarrow> outcome \<times> state" where
  "increase self s =
     (case cls (heap s self) of
        GUIElement \<Rightarrow> (Raised AttributeError, s)
      | GUICounter \<Rightarrow> GUICounter_increase self s
      | GUIHiddenList \<Rightarrow> GUIHiddenList_increase self s)"

definition decrease :: "ref \<Rightarrow> state \<Rightarrow> outcome \<times> state" where
  "decrease self s =
     (case cls (heap s self) of
        GUIElement \<Rightarrow> (Raised AttributeError, s)
      | GUICounter \<Rightarrow> GUICounter_decrease self s
      | GUIHiddenList \<Rightarrow> GUIHiddenList_decrease self s)"

text \<open>A sequence of \<^verbatim>\<open>increase()\<close> and \<^verbatim>\<open>decrease()\<close> calls on one widget; an exception ends it.\<close>

datatype call = Increase | Decrease

fun calls :: "ref \<Rightarrow> call list \<Rightarrow> state \<Rightarrow> outcome \<times> state" where
  "calls self [] s = (Normal, s)"
| "calls self (c # cs) s =
     (case (case c of Increase \<Rightarrow> increase self s | Decrease \<Rightarrow> decrease self s) of
        (Normal, s') \<Rightarrow> calls self cs s'
      | (Raised e, s') \<Rightarrow> (Raised e, s'))"

section \<open>ElementList\<close>

text \<open>
  The list of widgets, in navigation order. The attribute \<^verbatim>\<open>wrap\<close> of the list is the field
  \<open>list_wrap\<close> and its property \<^verbatim>\<open>current\<close> is \<open>list_current\<close>: the widgets have
  attributes of the same names.
\<close>

record element_list =
  elems :: "ref list"
  list_wrap :: bool
  current_index :: int

text \<open>
  The constructor receives the widgets as arguments or, in one argument, as a sequence
  of them; \<^verbatim>\<open>args[0]\<close> raises when there is no argument.
\<close>

datatype args = Positional "ref list" | Sequence "ref list"

fun set_exclusive :: "ref list \<Rightarrow> ref list \<Rightarrow> state \<Rightarrow> state" where
  "set_exclusive grp [] s = s"
| "set_exclusive grp (element # rest) s =
     set_exclusive grp rest (put element ((heap s element)\<lparr>exclusive_to := grp\<rparr>) s)"

definition ElementList_init ::
  "args \<Rightarrow> int \<Rightarrow> bool \<Rightarrow> bool \<Rightarrow> state \<Rightarrow> error + element_list \<times> state" where
  "ElementList_init a dflt wrp exclusive s =
     (case a of
        Positional [] \<Rightarrow> Inl IndexError
      | _ \<Rightarrow>
         (let es = (case a of Positional xs \<Rightarrow> xs | Sequence xs \<Rightarrow> xs)
          in Inr (\<lparr>elems = es, list_wrap = wrp, current_index = dflt\<rparr>,
                  if exclusive then set_exclusive es es s else s)))"

text \<open>\<^verbatim>\<open>self[self._current_index]\<close>: a negative index counts from the end.\<close>

definition list_current :: "element_list \<Rightarrow> error + ref" where
  "list_current l =
     (let n = int (length (elems l));
          i = current_index l;
          j = (if i < 0 then n + i else i)
      in if 0 \<le> j \<and> j < n then Inr (elems l ! nat j) else Inl IndexError)"

definition init :: "state \<Rightarrow> state" where
  "init s = s\<lparr>screen := screen s @ [ListInit]\<rparr>"

definition list_cleanup :: "state \<Rightarrow> state" where
  "list_cleanup s = s\<lparr>screen := screen s @ [ListCleanup]\<rparr>"

fun clear_each :: "ref list \<Rightarrow> state \<Rightarrow> state" where
  "clear_each [] s = s"
| "clear_each (element # rest) s = clear_each rest (clear element s)"

definition clear_all :: "element_list \<Rightarrow> state \<Rightarrow> state" where
  "clear_all l s = list_cleanup (clear_each (elems l) s)"

definition select_current :: "element_list \<Rightarrow> state \<Rightarrow> outcome \<times> state" where
  "select_current l s =
     (case list_current l of
        Inl e \<Rightarrow> (Raised e, s)
      | Inr cur \<Rightarrow> select cur s)"

definition move_left :: "element_list \<Rightarrow> state \<Rightarrow> outcome \<times> element_list \<times> state" where
  "move_left l s =
     (if length (elems l) = 0 then (Raised ZeroDivisionError, l, s)
      else (let l' = l\<lparr>current_index := (current_index l - 1) mod int (length (elems l))\<rparr>
            in case select_current l' s of (out, s') \<Rightarrow> (out, l', s')))"

definition move_right :: "element_list \<Rightarrow> state \<Rightarrow> outcome \<times> element_list \<times> state" where
  "move_right l s =
     (if length (elems l) = 0 then (Raised ZeroDivisionError, l, s)
      else (let l' = l\<lparr>current_index := (current_index l + 1) mod int (length (elems l))\<rparr>
            in case select_current l' s of (out, s') \<Rightarrow> (out, l', s')))"

section \<open>The key table\<close>

text \<open>
  The dictionary \<^verbatim>\<open>keys\<close> maps byte strings of length 1 or 2 to tokens. It is built from a
  literal and then updated with the printable characters, whose entries replace those of
  the literal with the same key.
\<close>

type_synonym byte = "8 word"

definition keys_literal :: "(byte list \<times> string) list" where
  "keys_literal =
    [([0x20], '' ''),
     ([0x1C], [CHR ''^'', CHR 0x5C]),
     ([0x1B], ''esc''),
     ([0x1D], ''^]''),
     ([0x0D], ''enter''),
     ([0x0A], ''^enter''),
     ([0x09], ''tab''),
     ([0x95], ''^tab''),
     ([0x08], ''back''),
     ([0x7F], ''^back''),
     ([0xE0, 0x53], ''del''),
     ([0xE0, 0x93], ''^del''),
     ([0xE0, 0x47], ''home''),
     ([0xE0, 0x77], ''^home''),
     ([0xE0, 0x4F], ''end''),
     ([0xE0, 0x75], ''^end''),
     ([0xE0, 0x49], ''pgup''),
     ([0xE0, 0x86], ''^pgup''),
     ([0xE0, 0x51], ''pgdn''),
     ([0x00, 0x52], ''num0''),
     ([0x00, 0x4F], ''num1''),
     ([0x00, 0x50], ''num2''),
     ([0x00, 0x51], ''num3''),
     ([0x00, 0x4B], ''num4''),
     ([0x00, 0x4D], ''num6''),
     ([0x00, 0x47], ''num7''),
     ([0x00, 0x48], ''num8''),
     ([0x00, 0x49], ''num9''),
     ([0x00, 0x53], ''num.''),
     ([0x00, 0x92], ''^num0''),
     ([0x00, 0x75], ''^num1''),
     ([0x00, 0x91], ''^num2''),
     ([0x00, 0x76], ''^num3''),
     ([0x00, 0x73], ''^num4''),
     ([0x00, 0x74], ''^num6''),
     ([0x00, 0x77], ''^num7''),
     ([0x00, 0x8D], ''^num8''),
     ([0x00, 0x84], ''^num9''),
     ([0x00, 0x93], ''^num.''),
     ([0x00, 0x95], ''^num/''),
     ([0xE0, 0x48], ''up''),
     ([0xE0, 0x50], ''down''),
     ([0xE0, 0x4B], ''left''),
     ([0xE0, 0x4D], ''right'')]"

definition keys_printable :: "(byte list \<times> string) list" where
  "keys_printable = map (\<lambda>i. ([of_nat i], [char_of i])) [32..<127]"

definition keys :: "byte list \<rightharpoonup> string" where
  "keys = map_of keys_literal ++ map_of keys_printable"

section \<open>The input loop\<close>

text \<open>
  \<^verbatim>\<open>msvcrt.getch\<close> blocks until a key arrives. The input is the list of the bytes that will
  arrive; on the empty list \<^verbatim>\<open>getch\<close> never returns, which is \<open>None\<close>.
\<close>

definition getch :: "byte list \<Rightarrow> (byte \<times> byte list) option" where
  "getch inp = (case inp of [] \<Rightarrow> None | b # rest \<Rightarrow> Some (b, rest))"

definition lookup :: "byte list \<Rightarrow> error + string" where
  "lookup k = (case keys k of None \<Rightarrow> Inl KeyError | Some t \<Rightarrow> Inr t)"

text \<open>
  The first statement of the loop body: one byte, and one more after the prefix
  \<^verbatim>\<open>b'\x00'\<close> or \<^verbatim>\<open>b'\xe0'\<close>, looked up in \<^verbatim>\<open>keys\<close>.
\<close>

definition read_key :: "byte list \<Rightarrow> ((error + string) \<times> byte list) option" where
  "read_key inp =
     (case getch inp of
        None \<Rightarrow> None
      | Some (key, inp1) \<Rightarrow>
          if key = 0x00 then
            (case getch inp1 of
               None \<Rightarrow> None
             | Some (key2, inp2) \<Rightarrow> Some (lookup [key, key2], inp2))
          else if key = 0xE0 then
            (case getch inp1 of
               None \<Rightarrow> None
             | Some (key2, inp2) \<Rightarrow> Some (lookup [key, key2], inp2))
          else Some (lookup [key], inp1))"

record options =
  auto_left_right :: bool
  auto_up_down :: bool
  auto_esc :: bool
  auto_enter :: bool
  clean :: bool

text \<open>
  The rest of the loop body, from the decoded key to the \<^verbatim>\<open>yield\<close>: it yields the key,
  leaves the loop by \<^verbatim>\<open>break\<close>, or raises.
\<close>

datatype step = Yield string | Break | Stop error

fun update_each :: "ref list \<Rightarrow> state \<Rightarrow> outcome \<times> state" where
  "update_each [] s = (Normal, s)"
| "update_each (element # rest) s =
     (case update element s of
        (Normal, s') \<Rightarrow> update_each rest s'
      | (Raised e, s') \<Rightarrow> (Raised e, s'))"

definition on_left_right :: "string \<Rightarrow> element_list \<Rightarrow> state \<Rightarrow> outcome \<times> element_list \<times> state" where
  "on_left_right key l s =
     (if key = ''left'' \<or> key = ''a'' then move_left l s
      else if key = ''right'' \<or> key = ''d'' then move_right l s
      else (Normal, l, s))"

definition on_up_down :: "string \<Rightarrow> element_list \<Rightarrow> state \<Rightarrow> outcome \<times> state" where
  "on_up_down key l s =
     (if key = ''up'' \<or> key = ''w'' then
        (case list_current l of Inl e \<Rightarrow> (Raised e, s) | Inr cur \<Rightarrow> increase cur s)
      else if key = ''down'' \<or> key = ''s'' then
        (case list_current l of Inl e \<Rightarrow> (Raised e, s) | Inr cur \<Rightarrow> decrease cur s)
      else (Normal, s))"

definition handle_key :: "options \<Rightarrow> string \<Rightarrow> element_list \<Rightarrow> state \<Rightarrow> step \<times> element_list \<times> state" where
  "handle_key opts key l s =
     (case (if auto_left_right opts then on_left_right key l s else (Normal, l, s)) of
        (Raised e, l1, s1) \<Rightarrow> (Stop e, l1, s1)
      | (Normal, l1, s1) \<Rightarrow>
          (case (if auto_up_down opts then on_up_down key l1 s1 else (Normal, s1)) of
             (Raised e, s2) \<Rightarrow> (Stop e, l1, s2)
           | (Normal, s2) \<Rightarrow>
               if auto_esc opts \<and> key = ''esc'' then (Stop SystemExit, l1, s2)
               else if auto_enter opts \<and> key = ''enter'' then (Break, l1, s2)
               else (Yield key, l1, s2)))"

text \<open>
  A run of the generator against a consumer. The consumer calls \<^verbatim>\<open>next\<close> until the
  generator ends (\<open>want = None\<close>), or calls it \<open>n\<close> times and then abandons the generator
  (\<open>want = Some n\<close>). An abandoned generator is suspended at its \<^verbatim>\<open>yield\<close>, or was never
  started; closing it raises \<^verbatim>\<open>GeneratorExit\<close> at the \<^verbatim>\<open>yield\<close>, which no handler of
  \<^verbatim>\<open>key_presses\<close> catches, so that no statement of it runs any more. The run ends with
  \<^verbatim>\<open>StopIteration\<close> when the function returns, with the exception that it raises, with
  \<open>GeneratorExit\<close> when the consumer abandons it, or it is \<open>Blocked\<close> in \<^verbatim>\<open>getch\<close> for ever.
  The result holds the tokens yielded, in order, and the list and the state at the end.
\<close>

datatype ending = StopIteration | Raise error | GeneratorExit | Blocked

type_synonym run = "ending \<times> string list \<times> element_list \<times> state"

definition yield :: "string \<Rightarrow> run \<Rightarrow> run" where
  "yield key r = (case r of (e, ks, l, s) \<Rightarrow> (e, key # ks, l, s))"

function loop :: "options \<Rightarrow> nat option \<Rightarrow> byte list \<Rightarrow> element_list \<Rightarrow> state \<Rightarrow> run" where
  "loop opts want inp l s =
     (case read_key inp of
        None \<Rightarrow> (Blocked, [], l, s)
      | Some (Inl e, rest) \<Rightarrow> (Raise e, [], l, s)
      | Some (Inr key, rest) \<Rightarrow>
          (case handle_key opts key l s of
             (Stop e, l', s') \<Rightarrow> (Raise e, [], l', s')
           | (Break, l', s') \<Rightarrow>
               (StopIteration, [], l', if clean opts then clear_all l' s' else s')
           | (Yield k, l', s') \<Rightarrow>
               if want = Some 1 then (GeneratorExit, [k], l', s')
               else yield k (loop opts (map_option (\<lambda>n. n - 1) want) rest l' s')))"
  by pat_completeness auto
termination
  by (relation "measure (\<lambda>(opts, want, inp, l, s). length inp)")
     (auto simp: read_key_def getch_def split: list.splits if_splits)

declare loop.simps [simp del]

definition key_presses :: "options \<Rightarrow> nat option \<Rightarrow> byte list \<Rightarrow> element_list \<Rightarrow> state \<Rightarrow> run" where
  "key_presses opts want inp l s =
     (if want = Some 0 then (GeneratorExit, [], l, s)
      else (case select_current l (init s) of
              (Raised e, s1) \<Rightarrow> (Raise e, [], l, s1)
            | (Normal, s1) \<Rightarrow>
                (case update_each (elems l) s1 of
                   (Raised e, s2) \<Rightarrow> (Raise e, [], l, s2)
                 | (Normal, s2) \<Rightarrow> loop opts want inp l s2)))"

section \<open>Predicates and example objects of the properties\<close>

text \<open>A \<^verbatim>\<open>GUICounter\<close> with the finite bounds \<open>lo\<close> and \<open>hi\<close> whose count lies between them.\<close>

definition within :: "int \<Rightarrow> int \<Rightarrow> widget \<Rightarrow> bool" where
  "within lo hi w \<longleftrightarrow>
     cls w = GUICounter \<and> bounds w = (Fin lo, Fin hi) \<and>
     (\<exists>v. count w = Fin v \<and> lo \<le> v \<and> v \<le> hi)"

text \<open>A counter with the bounds \<^verbatim>\<open>(0, 3)\<close> that starts at 3, and a state that holds it.\<close>

definition counter3 :: widget where
  "counter3 = GUICounter_init (PNum (Fin 1)) (PNum (Fin 1)) (PStr []) (PStr []) (PStr [])
                (PStr []) (PStr []) (Fin 3) (Fin 0) ''left'' 0 (Fin 0, Fin 3)
                (NegInf, PosInf) True"

definition state3 :: state where
  "state3 = \<lparr>heap = (\<lambda>_. counter3), screen = []\<rparr>"

text \<open>A counter whose count 5 is the upper one of its auxiliary bounds \<^verbatim>\<open>(0, 5)\<close>.\<close>

definition counter_aux :: widget where
  "counter_aux = GUICounter_init (PNum (Fin 1)) (PNum (Fin 1)) (PStr []) (PStr []) (PStr [])
                   (PStr []) (PStr []) (Fin 5) (Fin 2) ''left'' 0 (NegInf, PosInf)
                   (Fin 0, Fin 5) True"

definition state_aux :: state where
  "state_aux = \<lparr>heap = (\<lambda>_. counter_aux), screen = []\<rparr>"

text \<open>Four plain elements in a list whose \<^verbatim>\<open>wrap\<close> is false, the first one current.\<close>

definition four_elements :: state where
  "four_elements =
     \<lparr>heap = (\<lambda>_. GUIElement_init (PStr ''x'') (PNum (Fin 1)) (PNum (Fin 1))
                    Fore_RESET Back_GREEN Fore_RESET Back_RESET False),
      screen = []\<rparr>"

definition list4 :: element_list where
  "list4 = \<lparr>elems = [0, 1, 2, 3], list_wrap = False, current_index = 0\<rparr>"

text \<open>
  The changes that a sequence of \<^verbatim>\<open>increase()\<close> and \<^verbatim>\<open>decrease()\<close> calls makes to the attributes
  of a \<^verbatim>\<open>GUIHiddenList\<close>, and the hidden lists on which \<^verbatim>\<open>current\<close> is defined.
\<close>

fun hidden_calls :: "call list \<Rightarrow> widget \<Rightarrow> widget" where
  "hidden_calls [] w = w"
| "hidden_calls (Increase # cs) w = hidden_calls cs (hidden_increase_count w)"
| "hidden_calls (Decrease # cs) w = hidden_calls cs (hidden_decrease_count w)"

definition hidden_ok :: "widget \<Rightarrow> bool" where
  "hidden_ok w \<longleftrightarrow> cls w = GUIHiddenList \<and> items w \<noteq> [] \<and> (\<exists>i. count w = Fin i)"

text \<open>The hidden list of \<^verbatim>\<open>["a", "b", "c"]\<close>, as its constructor makes it, and a state that holds it.\<close>

definition abc :: "bool \<Rightarrow> widget" where
  "abc wrp = projr (GUIHiddenList_init [''a'', ''b'', ''c''] (PNum (Fin 1)) (PNum (Fin 1))
                      (PStr []) (PStr []) (PStr []) (PStr []) (PStr []) None wrp)"

definition state_abc :: "bool \<Rightarrow> state" where
  "state_abc wrp = \<lparr>heap = (\<lambda>_. abc wrp), screen = []\<rparr>"

text \<open>
  Three plain elements of which the second is selected, made one exclusive group by the
  constructor of \<^verbatim>\<open>ElementList\<close> with \<^verbatim>\<open>exclusive=True\<close>.
\<close>

definition plain :: "bool \<Rightarrow> widget" where
  "plain sel = GUIElement_init (PStr ''x'') (PNum (Fin 1)) (PNum (Fin 1))
                 Fore_RESET Back_GREEN Fore_RESET Back_RESET sel"

definition three_state :: state where
  "three_state =
     snd (projr (ElementList_init (Positional [0, 1, 2]) 0 True True
                   \<lparr>heap = (\<lambda>r. plain (r = 1)), screen = []\<rparr>))"

text \<open>
  The events of clearing. \<open>cleanups\<close> is the part of the trace made of the calls of the two
  \<^verbatim>\<open>cleanup\<close> hooks; \<open>clear_events\<close> is what \<^verbatim>\<open>element.clear()\<close> writes for one widget: blanks
  over its footprint, then its hook.
\<close>

fun is_cleanup :: "event \<Rightarrow> bool" where
  "is_cleanup (ElementCleanup r) = True"
| "is_cleanup ListCleanup = True"
| "is_cleanup (PrintPos t px py f b) = False"
| "is_cleanup ListInit = False"

definition cleanups :: "state \<Rightarrow> event list" where
  "cleanups s = filter is_cleanup (screen s)"

definition blank_width :: "widget \<Rightarrow> int" where
  "blank_width w =
     (case cls w of
        GUIElement \<Rightarrow> int (length (py_str (text_of w)))
      | GUICounter \<Rightarrow> max 0 (max (int (length (py_str (text_of w)))) (padding w))
      | GUIHiddenList \<Rightarrow> max (max_width w) (max (int (length (py_str (text_of w)))) (padding w)))"

definition clear_events :: "(ref \<Rightarrow> widget) \<Rightarrow> ref \<Rightarrow> event list" where
  "clear_events h r =
     [PrintPos (replicate (nat (blank_width (h r))) (CHR '' '')) (x_of (h r)) (y_of (h r))
        Fore_RESET Back_RESET,
      ElementCleanup r]"

text \<open>
  Two counters with the default arguments in a list, the options \<^verbatim>\<open>auto_up_down\<close>,
  \<^verbatim>\<open>auto_enter\<close> and \<^verbatim>\<open>clean\<close>, and the bytes of the keys up, up, enter.
\<close>

definition plain_counter :: widget where
  "plain_counter = GUICounter_init (PNum (Fin 1)) (PNum (Fin 1)) (PStr []) (PStr []) (PStr [])
                     (PStr []) (PStr []) (Fin 0) (Fin 0) ''left'' 0 (NegInf, PosInf)
                     (NegInf, PosInf) True"

definition two_counters :: state where
  "two_counters = \<lparr>heap = (\<lambda>_. plain_counter), screen = []\<rparr>"

definition two_list :: element_list where
  "two_list = \<lparr>elems = [0, 1], list_wrap = True, current_index = 0\<rparr>"

definition up_down_enter_clean :: options where
  "up_down_enter_clean =
     \<lparr>auto_left_right = False, auto_up_down = True, auto_esc = False, auto_enter = True,
      clean = True\<rparr>"

definition up_up_enter :: "byte list" where
  "up_up_enter = [0xE0, 0x48, 0xE0, 0x48, 0x0D]"

text \<open>
  A \<^verbatim>\<open>GUICounter\<close> whose \<^verbatim>\<open>align\<close> lets it render, and a widget without its selection: the calls
  of \<^verbatim>\<open>select()\<close> and \<^verbatim>\<open>deselect()\<close> change nothing else.
\<close>

definition counter_ok :: "widget \<Rightarrow> bool" where
  "counter_ok w \<longleftrightarrow> cls w = GUICounter \<and> (align w = ''left'' \<or> align w = ''right'')"

definition unselected :: "widget \<Rightarrow> widget" where
  "unselected w = w\<lparr>selected := False\<rparr>"


section \<open>The heap under rendering and counting\<close>

lemma heap_update [simp]: "heap (snd (update r s)) = heap s"
  by (simp add: update_def GUIElement_update_def GUICounter_update_def GUIHiddenList_update_def
      print_pos_def Let_def split: cls.splits sum.splits)

lemma heap_put [simp]: "heap (put r w s) = (heap s)(r := w)"
  by (simp add: put_def)

lemma heap_increase_counter:
  "cls (heap s r) = GUICounter \<Longrightarrow>
   heap (snd (increase r s)) = (heap s)(r := increase_count (heap s r))"
  by (simp add: increase_def GUICounter_increase_def)

lemma heap_decrease_counter:
  "cls (heap s r) = GUICounter \<Longrightarrow>
   heap (snd (decrease r s)) = (heap s)(r := decrease_count (heap s r))"
  by (simp add: decrease_def GUICounter_decrease_def)

lemma within_increase_count: "within lo hi w \<Longrightarrow> within lo hi (increase_count w)"
  by (auto simp: within_def increase_count_def)

lemma within_decrease_count: "within lo hi w \<Longrightarrow> within lo hi (decrease_count w)"
  by (auto simp: within_def decrease_count_def)

lemma within_calls:
  "within lo hi (heap s self) \<Longrightarrow> within lo hi (heap (snd (calls self cs s)) self)"
proof (induction cs arbitrary: s)
  case Nil
  then show ?case by simp
next
  case (Cons c cs)
  define r where "r = (case c of Increase \<Rightarrow> increase self s | Decrease \<Rightarrow> decrease self s)"
  have cl: "cls (heap s self) = GUICounter"
    using Cons.prems by (simp add: within_def)
  have step: "within lo hi (heap (snd r) self)"
    using Cons.prems cl
    by (cases c)
       (simp_all add: r_def heap_increase_counter heap_decrease_counter
          within_increase_count within_decrease_count)
  show ?case
  proof (cases r)
    case (Pair out s')
    then show ?thesis
      using step Cons.IH [of s'] by (cases out) (simp_all add: r_def [symmetric])
  qed
qed

section \<open>Properties\<close>

text \<open>
  C1. A \<^verbatim>\<open>GUICounter\<close> whose count starts within its finite bounds keeps it within them
  under every sequence of \<^verbatim>\<open>increase()\<close> and \<^verbatim>\<open>decrease()\<close> calls, also when a call raises in
  rendering. At the upper bound, \<^verbatim>\<open>increase()\<close> gives the lower bound when \<^verbatim>\<open>wrap_bounds\<close> is
  true and leaves the count when it is false; \<^verbatim>\<open>decrease()\<close> is symmetric at the lower bound.
\<close>

theorem counter_stays_within_bounds:
  assumes "cls (heap s self) = GUICounter"
    and "bounds (heap s self) = (Fin lo, Fin hi)"
    and "count (heap s self) = Fin v" and "lo \<le> v" and "v \<le> hi"
  shows "(\<exists>v'. count (heap (snd (calls self cs s)) self) = Fin v' \<and> lo \<le> v' \<and> v' \<le> hi) \<and>
         (v = hi \<longrightarrow> count (heap (snd (increase self s)) self)
                      = (if wrap_bounds (heap s self) then Fin lo else Fin hi)) \<and>
         (v = lo \<longrightarrow> count (heap (snd (decrease self s)) self)
                      = (if wrap_bounds (heap s self) then Fin hi else Fin lo))"
proof -
  have "within lo hi (heap s self)"
    using assms by (simp add: within_def)
  then have "within lo hi (heap (snd (calls self cs s)) self)"
    by (rule within_calls)
  then have a: "\<exists>v'. count (heap (snd (calls self cs s)) self) = Fin v' \<and> lo \<le> v' \<and> v' \<le> hi"
    by (simp add: within_def)
  have b: "v = hi \<longrightarrow> count (heap (snd (increase self s)) self)
                      = (if wrap_bounds (heap s self) then Fin lo else Fin hi)"
    using assms by (simp add: heap_increase_counter increase_count_def)
  have c: "v = lo \<longrightarrow> count (heap (snd (decrease self s)) self)
                      = (if wrap_bounds (heap s self) then Fin hi else Fin lo)"
    using assms by (simp add: heap_decrease_counter decrease_count_def)
  from a b c show ?thesis by blast
qed

theorem counter_stays_within_bounds_witness:
  "cls (heap state3 0) = GUICounter \<and> bounds (heap state3 0) = (Fin 0, Fin 3) \<and>
   count (heap state3 0) = Fin 3 \<and>
   (\<exists>v'. count (heap (snd (calls 0 [Increase, Increase, Decrease, Decrease] state3)) 0) = Fin v'
         \<and> 0 \<le> v' \<and> v' \<le> 3) \<and>
   count (heap (snd (increase 0 state3)) 0) = Fin 0"
proof -
  have h: "cls (heap state3 0) = GUICounter" "bounds (heap state3 0) = (Fin 0, Fin 3)"
    "count (heap state3 0) = Fin 3" "wrap_bounds (heap state3 0)"
    by (simp_all add: state3_def counter3_def GUICounter_init_def GUIElement_init_def)
  show ?thesis
    using h counter_stays_within_bounds
      [of state3 0 0 3 3 "[Increase, Increase, Decrease, Decrease]"]
    by simp
qed

text \<open>
  C2. \<^verbatim>\<open>aux_increase()\<close> compares \<^verbatim>\<open>count\<close>, not \<^verbatim>\<open>aux_count\<close>, with the upper auxiliary bound:
  when they differ it adds 1 to \<^verbatim>\<open>aux_count\<close> and leaves \<^verbatim>\<open>count\<close>; when they are equal and
  \<^verbatim>\<open>wrap_bounds\<close> is true it assigns the lower auxiliary bound to \<^verbatim>\<open>count\<close> and leaves
  \<^verbatim>\<open>aux_count\<close>. \<^verbatim>\<open>aux_decrease()\<close> does the same with the bounds exchanged.
\<close>

theorem aux_methods_gate_on_count:
  assumes "cls (heap s self) \<noteq> GUIElement"
  shows "(let w = heap s self; w' = heap (snd (aux_increase self s)) self
          in (count w \<noteq> snd (aux_bounds w) \<longrightarrow>
                aux_count w' = num_add (aux_count w) 1 \<and> count w' = count w \<and>
                (\<forall>a. aux_count w = Fin a \<longrightarrow> aux_count w' = Fin (a + 1))) \<and>
             (count w = snd (aux_bounds w) \<and> wrap_bounds w \<longrightarrow>
                count w' = fst (aux_bounds w) \<and> aux_count w' = aux_count w)) \<and>
         (let w = heap s self; w' = heap (snd (aux_decrease self s)) self
          in (count w \<noteq> fst (aux_bounds w) \<longrightarrow>
                aux_count w' = num_add (aux_count w) (- 1) \<and> count w' = count w \<and>
                (\<forall>a. aux_count w = Fin a \<longrightarrow> aux_count w' = Fin (a - 1))) \<and>
             (count w = fst (aux_bounds w) \<and> wrap_bounds w \<longrightarrow>
                count w' = snd (aux_bounds w) \<and> aux_count w' = aux_count w))"
  using assms
  by (simp add: Let_def aux_increase_def aux_decrease_def aux_increase_count_def
      aux_decrease_count_def)

theorem aux_methods_gate_on_count_witness:
  "cls (heap state_aux 0) \<noteq> GUIElement \<and>
   count (heap state_aux 0) = Fin 5 \<and> aux_count (heap state_aux 0) = Fin 2 \<and>
   count (heap (snd (aux_increase 0 state_aux)) 0) = Fin 0 \<and>
   aux_count (heap (snd (aux_increase 0 state_aux)) 0) = Fin 2 \<and>
   count (heap (snd (aux_decrease 0 state_aux)) 0) = Fin 5 \<and>
   aux_count (heap (snd (aux_decrease 0 state_aux)) 0) = Fin 1"
proof -
  have h: "cls (heap state_aux 0) \<noteq> GUIElement" "count (heap state_aux 0) = Fin 5"
    "aux_count (heap state_aux 0) = Fin 2" "aux_bounds (heap state_aux 0) = (Fin 0, Fin 5)"
    "wrap_bounds (heap state_aux 0)"
    by (simp_all add: state_aux_def counter_aux_def GUICounter_init_def GUIElement_init_def)
  show ?thesis
    using h aux_methods_gate_on_count [of state_aux 0]
    by (simp add: Let_def)
qed

text \<open>
  C9. The constructors of \<^verbatim>\<open>GUICounter\<close> and \<^verbatim>\<open>GUIHiddenList\<close> ignore their arguments
  \<^verbatim>\<open>sel_fore\<close>, \<^verbatim>\<open>sel_back\<close>, \<^verbatim>\<open>unsel_fore\<close>, \<^verbatim>\<open>unsel_back\<close> and \<^verbatim>\<open>selected\<close>: the widget has
  \<^verbatim>\<open>Fore.RESET\<close>, \<^verbatim>\<open>Back.GREEN\<close>, \<^verbatim>\<open>Fore.RESET\<close>, \<^verbatim>\<open>Back.RESET\<close> and \<^verbatim>\<open>False\<close>, whatever is passed.
  A \<^verbatim>\<open>GUIHiddenList\<close> is constructed from any non-empty list of items.
\<close>

theorem constructors_ignore_style_arguments:
  "(let w = GUICounter_init px py sf sb uf ub sel dflt dflt_aux al pad bnds aux_bnds wrap_bnds
    in sel_fore w = Fore_RESET \<and> sel_back w = Back_GREEN \<and> unsel_fore w = Fore_RESET \<and>
       unsel_back w = Back_RESET \<and> selected w = False) \<and>
   (its \<noteq> [] \<longrightarrow>
      (\<exists>w. GUIHiddenList_init its px py sf sb uf ub sel max_w wrp = Inr w \<and>
           sel_fore w = Fore_RESET \<and> sel_back w = Back_GREEN \<and> unsel_fore w = Fore_RESET \<and>
           unsel_back w = Back_RESET \<and> selected w = False))"
  by (cases its) (simp_all add: Let_def GUICounter_init_def GUIHiddenList_init_def GUIElement_init_def)

theorem constructors_ignore_style_arguments_witness:
  "[''a'', ''b''] \<noteq> [] \<and>
   (\<exists>w. GUIHiddenList_init [''a'', ''b''] (PNum (Fin 3)) (PNum (Fin 4)) (PStr ''red'')
          (PStr ''blue'') (PStr ''red'') (PStr ''blue'') (PStr ''True'') None True = Inr w \<and>
        sel_fore w = Fore_RESET \<and> sel_back w = Back_GREEN \<and> unsel_fore w = Fore_RESET \<and>
        unsel_back w = Back_RESET \<and> selected w = False)"
  using constructors_ignore_style_arguments
    [of "PNum (Fin 3)" "PNum (Fin 4)" "PStr ''red''" "PStr ''blue''" "PStr ''red''"
        "PStr ''blue''" "PStr ''True''" "Fin 0" "Fin 0" "''left''" 0 "(NegInf, PosInf)"
        "(NegInf, PosInf)" True "[''a'', ''b'']" None True]
  by simp

text \<open>
  C6. On a list of length \<open>n \<ge> 1\<close>, \<^verbatim>\<open>move_left()\<close> sets the index to \<open>(index - 1) mod n\<close> and
  \<^verbatim>\<open>move_right()\<close> to \<open>(index + 1) mod n\<close>, for every index and for both values of the list's
  \<^verbatim>\<open>wrap\<close>; on a list of length 4 at index 0, \<^verbatim>\<open>move_left()\<close> gives index 3.
\<close>

theorem navigation_wraps_modulo_length:
  assumes "elems l \<noteq> []"
  shows "current_index (fst (snd (move_left (l\<lparr>list_wrap := b\<rparr>) s)))
           = (current_index l - 1) mod int (length (elems l)) \<and>
         current_index (fst (snd (move_right (l\<lparr>list_wrap := b\<rparr>) s)))
           = (current_index l + 1) mod int (length (elems l)) \<and>
         (length (elems l) = 4 \<and> current_index l = 0 \<longrightarrow>
            current_index (fst (snd (move_left (l\<lparr>list_wrap := b\<rparr>) s))) = 3)"
  using assms
  by (simp add: move_left_def move_right_def Let_def split: prod.splits)

theorem navigation_wraps_modulo_length_witness:
  "elems list4 \<noteq> [] \<and> list_wrap list4 = False \<and>
   current_index (fst (snd (move_left (list4\<lparr>list_wrap := False\<rparr>) four_elements))) = 3 \<and>
   current_index (fst (snd (move_left (list4\<lparr>list_wrap := True\<rparr>) four_elements))) = 3"
proof -
  have h: "elems list4 \<noteq> []" "length (elems list4) = 4" "current_index list4 = 0"
    "list_wrap list4 = False"
    by (simp_all add: list4_def)
  show ?thesis
    using h navigation_wraps_modulo_length [of list4 False four_elements]
      navigation_wraps_modulo_length [of list4 True four_elements]
    by simp
qed

section \<open>Decoding\<close>

lemma map_of_tabulate:
  "inj_on f (set xs) \<Longrightarrow> i \<in> set xs \<Longrightarrow> map_of (map (\<lambda>i. (f i, g i)) xs) (f i) = Some (g i)"
  by (induction xs) (auto simp: inj_on_def)

lemma inj_on_byte_key: "n \<le> 256 \<Longrightarrow> inj_on (\<lambda>i. [of_nat i :: byte]) {m..<n}"
proof (rule inj_onI)
  fix i j :: nat
  assume n: "n \<le> 256" and i: "i \<in> {m..<n}" and j: "j \<in> {m..<n}"
    and eq: "[of_nat i :: byte] = [of_nat j]"
  from eq have "unat (of_nat i :: byte) = unat (of_nat j :: byte)" by simp
  moreover from i j n have "i < 256" "j < 256" by simp_all
  ultimately show "i = j" by (simp add: unat_of_nat)
qed

lemma map_of_byte_range:
  assumes "m \<le> unat b" and "unat b < n" and "n \<le> 256"
  shows "map_of (map (\<lambda>i. ([of_nat i :: byte], g i)) [m..<n]) [b] = Some (g (unat b))"
proof -
  have mem: "unat b \<in> set [m..<n]" using assms by simp
  have inj: "inj_on (\<lambda>i. [of_nat i :: byte]) (set [m..<n])"
    using inj_on_byte_key [OF assms(3)] by simp
  have "map_of (map (\<lambda>i. ([of_nat i :: byte], g i)) [m..<n]) [of_nat (unat b)]
          = Some (g (unat b))"
    by (rule map_of_tabulate [OF inj mem])
  then show ?thesis by simp
qed

lemma keys_printable_lookup:
  assumes "32 \<le> unat b" and "unat b \<le> 126"
  shows "map_of keys_printable [b] = Some [char_of (unat b)]"
proof -
  have "unat b < 127" using assms by simp
  then show ?thesis
    unfolding keys_printable_def
    using assms(1) by (intro map_of_byte_range) simp_all
qed

text \<open>
  C8. A byte in the printable range 32 to 126, read where a key starts, is decoded to the
  token that consists of the character with that code; the bytes after it are left.
\<close>

theorem printable_byte_decodes_to_its_character:
  assumes "32 \<le> unat b" and "unat b \<le> 126"
  shows "read_key (b # rest) = Some (Inr [char_of (unat b)], rest)"
proof -
  have "keys [b] = Some [char_of (unat b)]"
    using keys_printable_lookup [OF assms] by (simp add: keys_def map_add_def)
  then have l: "lookup [b] = Inr [char_of (unat b)]"
    by (simp add: lookup_def)
  have "b \<noteq> 0x00" using assms by auto
  moreover have "b \<noteq> 0xE0" using assms by auto
  ultimately show ?thesis
    using l by (simp add: read_key_def getch_def)
qed

theorem printable_byte_decodes_to_its_character_witness:
  "32 \<le> unat (0x41 :: byte) \<and> unat (0x41 :: byte) \<le> 126 \<and>
   read_key [0x41, 0x0D] = Some (Inr ''A'', [0x0D])"
  using printable_byte_decodes_to_its_character [of "0x41" "[0x0D]"]
  by (simp add: char_of_def bit_Suc_0_iff)

section \<open>GUIHiddenList under sequences of calls\<close>

lemma hidden_ok_increase: "hidden_ok w \<Longrightarrow> hidden_ok (hidden_increase_count w)"
  by (auto simp: hidden_ok_def hidden_increase_count_def)

lemma hidden_ok_decrease: "hidden_ok w \<Longrightarrow> hidden_ok (hidden_decrease_count w)"
  by (auto simp: hidden_ok_def hidden_decrease_count_def)

lemma update_hidden_ok: "hidden_ok (heap s r) \<Longrightarrow> fst (update r s) = Normal"
  by (auto simp: hidden_ok_def update_def GUIHiddenList_update_def current_def)

lemma increase_hidden:
  assumes "hidden_ok (heap s r)"
  shows "fst (increase r s) = Normal"
    and "heap (snd (increase r s)) = (heap s)(r := hidden_increase_count (heap s r))"
proof -
  have c: "cls (heap s r) = GUIHiddenList" using assms by (simp add: hidden_ok_def)
  have "hidden_ok (heap (put r (hidden_increase_count (heap s r)) s) r)"
    using assms by (simp add: hidden_ok_increase)
  then show "fst (increase r s) = Normal"
    using c by (simp add: increase_def GUIHiddenList_increase_def update_hidden_ok)
  show "heap (snd (increase r s)) = (heap s)(r := hidden_increase_count (heap s r))"
    using c by (simp add: increase_def GUIHiddenList_increase_def)
qed

lemma decrease_hidden:
  assumes "hidden_ok (heap s r)"
  shows "fst (decrease r s) = Normal"
    and "heap (snd (decrease r s)) = (heap s)(r := hidden_decrease_count (heap s r))"
proof -
  have c: "cls (heap s r) = GUIHiddenList" using assms by (simp add: hidden_ok_def)
  have "hidden_ok (heap (put r (hidden_decrease_count (heap s r)) s) r)"
    using assms by (simp add: hidden_ok_decrease)
  then show "fst (decrease r s) = Normal"
    using c by (simp add: decrease_def GUIHiddenList_decrease_def update_hidden_ok)
  show "heap (snd (decrease r s)) = (heap s)(r := hidden_decrease_count (heap s r))"
    using c by (simp add: decrease_def GUIHiddenList_decrease_def)
qed

lemma calls_hidden:
  "hidden_ok (heap s r) \<Longrightarrow>
   fst (calls r cs s) = Normal \<and> heap (snd (calls r cs s)) r = hidden_calls cs (heap s r)"
proof (induction cs arbitrary: s)
  case Nil
  then show ?case by simp
next
  case (Cons c cs)
  show ?case
  proof (cases c)
    case Increase
    obtain out s' where r: "increase r s = (out, s')" by (cases "increase r s")
    have "out = Normal" and h: "heap s' = (heap s)(r := hidden_increase_count (heap s r))"
      using increase_hidden [OF Cons.prems] r by simp_all
    moreover have "hidden_ok (heap s' r)"
      using h Cons.prems by (simp add: hidden_ok_increase)
    ultimately show ?thesis
      using Cons.IH [of s'] r Increase by simp
  next
    case Decrease
    obtain out s' where r: "decrease r s = (out, s')" by (cases "decrease r s")
    have "out = Normal" and h: "heap s' = (heap s)(r := hidden_decrease_count (heap s r))"
      using decrease_hidden [OF Cons.prems] r by simp_all
    moreover have "hidden_ok (heap s' r)"
      using h Cons.prems by (simp add: hidden_ok_decrease)
    ultimately show ?thesis
      using Cons.IH [of s'] r Decrease by simp
  qed
qed

lemma hidden_calls_items: "items (hidden_calls cs w) = items w"
  by (induction cs w rule: hidden_calls.induct)
     (simp_all add: hidden_increase_count_def hidden_decrease_count_def)

lemma hidden_ok_calls: "hidden_ok w \<Longrightarrow> hidden_ok (hidden_calls cs w)"
  by (induction cs w rule: hidden_calls.induct)
     (simp_all add: hidden_ok_increase hidden_ok_decrease)

lemma hidden_decreases_wrap:
  "wrap w \<Longrightarrow> count w = Fin c \<Longrightarrow>
   count (hidden_calls (replicate n Decrease) w) = Fin (c - int n)"
proof (induction n arbitrary: w c)
  case 0
  then show ?case by simp
next
  case (Suc n)
  have "wrap (hidden_decrease_count w)" "count (hidden_decrease_count w) = Fin (c - 1)"
    using Suc.prems by (simp_all add: hidden_decrease_count_def)
  from Suc.IH [OF this] show ?case by (simp add: algebra_simps)
qed

text \<open>
  C4, as the code has it. For the hidden list of \<^verbatim>\<open>["a", "b", "c"]\<close>, which starts at index 0
  with \<^verbatim>\<open>current == "a"\<close>: with \<^verbatim>\<open>wrap\<close> true, the first \<^verbatim>\<open>decrease()\<close> reaches \<^verbatim>\<open>"c"\<close>, the second
  \<^verbatim>\<open>"b"\<close>, and after three consecutive calls \<^verbatim>\<open>current\<close> is \<^verbatim>\<open>"a"\<close> again; with \<^verbatim>\<open>wrap\<close> false,
  \<^verbatim>\<open>decrease()\<close> at index 0 leaves \<^verbatim>\<open>current == "a"\<close>.
\<close>

theorem hidden_list_decrease_cycles_backwards:
  assumes "GUIHiddenList_init [''a'', ''b'', ''c''] px py sf sb uf ub sel max_w wrp = Inr w"
    and "heap s self = w"
  shows "current (heap s self) = Inr ''a'' \<and>
         (wrp \<longrightarrow>
            current (heap (snd (calls self [Decrease] s)) self) = Inr ''c'' \<and>
            current (heap (snd (calls self [Decrease, Decrease] s)) self) = Inr ''b'' \<and>
            current (heap (snd (calls self [Decrease, Decrease, Decrease] s)) self) = Inr ''a'') \<and>
         (\<not> wrp \<longrightarrow> current (heap (snd (decrease self s)) self) = Inr ''a'')"
proof -
  have w: "cls w = GUIHiddenList" "items w = [''a'', ''b'', ''c'']" "count w = Fin 0"
    "wrap w = wrp"
    using assms(1)
    by (auto simp: GUIHiddenList_init_def GUICounter_init_def GUIElement_init_def)
  have ok: "hidden_ok (heap s self)"
    using w assms(2) by (simp add: hidden_ok_def)
  have a: "current (heap s self) = Inr ''a''"
    using w assms(2) by (simp add: current_def)
  have b: "current (hidden_calls [Decrease] w) = Inr ''c''"
    "current (hidden_calls [Decrease, Decrease] w) = Inr ''b''"
    "current (hidden_calls [Decrease, Decrease, Decrease] w) = Inr ''a''" if wrp
    using w that by (simp_all add: current_def hidden_decrease_count_def)
  have c: "current (hidden_decrease_count w) = Inr ''a''" if "\<not> wrp"
    using w that by (simp add: current_def hidden_decrease_count_def)
  have k: "heap (snd (calls self cs s)) self = hidden_calls cs w" for cs
    using calls_hidden [OF ok, of cs] assms(2) by simp
  have d: "heap (snd (decrease self s)) self = hidden_decrease_count w"
    using decrease_hidden(2) [OF ok] assms(2) by simp
  show ?thesis
    using a b c by (simp add: k d del: calls.simps)
qed

theorem hidden_list_decrease_cycles_backwards_witness:
  "GUIHiddenList_init [''a'', ''b'', ''c''] (PNum (Fin 1)) (PNum (Fin 1))
     (PStr []) (PStr []) (PStr []) (PStr []) (PStr []) None True = Inr (abc True) \<and>
   heap (state_abc True) 0 = abc True \<and>
   current (heap (snd (calls 0 [Decrease] (state_abc True))) 0) = Inr ''c'' \<and>
   current (heap (snd (calls 0 [Decrease, Decrease] (state_abc True))) 0) = Inr ''b''"
proof -
  have h: "GUIHiddenList_init [''a'', ''b'', ''c''] (PNum (Fin 1)) (PNum (Fin 1))
     (PStr []) (PStr []) (PStr []) (PStr []) (PStr []) None True = Inr (abc True)"
    "heap (state_abc True) 0 = abc True"
    by (simp_all add: abc_def state_abc_def GUIHiddenList_init_def)
  show ?thesis
    using h hidden_list_decrease_cycles_backwards [OF h] by simp
qed

text \<open>
  C4, as stated: after three consecutive \<^verbatim>\<open>decrease()\<close> calls with \<^verbatim>\<open>wrap\<close> true, \<^verbatim>\<open>current\<close> is
  \<^verbatim>\<open>"a"\<close> and not \<^verbatim>\<open>"c"\<close>.
\<close>

theorem hidden_list_three_decreases_counterexample:
  "current (heap (snd (calls 0 [Decrease, Decrease, Decrease] (state_abc True))) 0) = Inr ''a'' \<and>
   current (heap (snd (calls 0 [Decrease, Decrease, Decrease] (state_abc True))) 0) \<noteq> Inr ''c''"
  by (simp add: state_abc_def abc_def GUIHiddenList_init_def GUICounter_init_def
      GUIElement_init_def increase_def decrease_def GUIHiddenList_decrease_def update_def
      GUIHiddenList_update_def hidden_decrease_count_def current_def put_def
      GUIElement_update_def print_pos_def Let_def)

text \<open>
  C10. In a \<^verbatim>\<open>GUIHiddenList\<close> with \<^verbatim>\<open>wrap\<close> true, \<^verbatim>\<open>count\<close> is not kept within the indices of
  \<^verbatim>\<open>items\<close>: \<^verbatim>\<open>increase()\<close> at the last index sets it to \<^verbatim>\<open>len(items)\<close>, and \<open>n\<close> calls of
  \<^verbatim>\<open>decrease()\<close> take it from \<open>c\<close> to \<open>c - n\<close>, below every bound. After every sequence of
  \<^verbatim>\<open>increase()\<close> and \<^verbatim>\<open>decrease()\<close> calls, none of which raises, \<^verbatim>\<open>current\<close> is defined and is
  \<^verbatim>\<open>items[count % len(items)]\<close>, at an index within the list.
\<close>

theorem hidden_list_count_unconfined:
  assumes "cls (heap s self) = GUIHiddenList" and "wrap (heap s self)"
    and "items (heap s self) \<noteq> []" and "count (heap s self) = Fin c"
  shows "(c = int (length (items (heap s self))) - 1 \<longrightarrow>
            count (heap (snd (increase self s)) self) = Fin (int (length (items (heap s self))))) \<and>
         count (heap (snd (calls self (replicate n Decrease) s)) self) = Fin (c - int n) \<and>
         (\<exists>i. fst (calls self cs s) = Normal \<and>
              count (heap (snd (calls self cs s)) self) = Fin i \<and>
              nat (i mod int (length (items (heap s self)))) < length (items (heap s self)) \<and>
              current (heap (snd (calls self cs s)) self)
                = Inr (items (heap s self) ! nat (i mod int (length (items (heap s self))))))"
proof -
  let ?w = "heap s self"
  have ok: "hidden_ok ?w" using assms by (simp add: hidden_ok_def)
  have a: "c = int (length (items ?w)) - 1 \<longrightarrow>
            count (heap (snd (increase self s)) self) = Fin (int (length (items ?w)))"
    using assms by (simp add: increase_hidden(2) [OF ok] hidden_increase_count_def)
  have b: "count (heap (snd (calls self (replicate n Decrease) s)) self) = Fin (c - int n)"
    using calls_hidden [OF ok, of "replicate n Decrease"]
      hidden_decreases_wrap [OF assms(2) assms(4), of n] by simp
  have ok': "hidden_ok (hidden_calls cs ?w)" by (rule hidden_ok_calls [OF ok])
  then obtain i where i: "count (hidden_calls cs ?w) = Fin i"
    by (auto simp: hidden_ok_def)
  have len: "0 < int (length (items ?w))" using assms(3) by simp
  have lt: "nat (i mod int (length (items ?w))) < length (items ?w)"
    using len by (simp add: nat_less_iff)
  have cur: "current (hidden_calls cs ?w) = Inr (items ?w ! nat (i mod int (length (items ?w))))"
    using i assms(3) by (simp add: current_def hidden_calls_items)
  have c: "\<exists>i. fst (calls self cs s) = Normal \<and>
              count (heap (snd (calls self cs s)) self) = Fin i \<and>
              nat (i mod int (length (items ?w))) < length (items ?w) \<and>
              current (heap (snd (calls self cs s)) self)
                = Inr (items ?w ! nat (i mod int (length (items ?w))))"
    using calls_hidden [OF ok, of cs] i lt cur by auto
  from a b c show ?thesis by blast
qed

theorem hidden_list_count_unconfined_witness:
  "cls (heap (state_abc True) 0) = GUIHiddenList \<and> wrap (heap (state_abc True) 0) \<and>
   items (heap (state_abc True) 0) \<noteq> [] \<and> count (heap (state_abc True) 0) = Fin 0 \<and>
   count (heap (snd (calls 0 (replicate 5 Decrease) (state_abc True))) 0) = Fin (- 5) \<and>
   (\<exists>i. fst (calls 0 [Increase, Increase, Increase, Increase] (state_abc True)) = Normal \<and>
        count (heap (snd (calls 0 [Increase, Increase, Increase, Increase] (state_abc True))) 0)
          = Fin i \<and>
        current (heap (snd (calls 0 [Increase, Increase, Increase, Increase] (state_abc True))) 0)
          = Inr ([''a'', ''b'', ''c''] ! nat (i mod 3)))"
proof -
  have h: "cls (heap (state_abc True) 0) = GUIHiddenList" "wrap (heap (state_abc True) 0)"
    "items (heap (state_abc True) 0) \<noteq> []" "count (heap (state_abc True) 0) = Fin 0"
    and i: "items (heap (state_abc True) 0) = [''a'', ''b'', ''c'']"
    by (simp_all add: state_abc_def abc_def GUIHiddenList_init_def GUICounter_init_def
        GUIElement_init_def)
  show ?thesis
    using h i hidden_list_count_unconfined [OF h, of 5 "[Increase, Increase, Increase, Increase]"]
    by (auto simp del: calls.simps)
qed

section \<open>Selection within an exclusive group\<close>

lemma heap_set_selected [simp]:
  "heap (set_selected r b s) = (heap s)(r := (heap s r)\<lparr>selected := b\<rparr>)"
  by (simp add: set_selected_def)

lemma heap_deselect:
  "heap (snd (deselect r s)) = (heap s)(r := (heap s r)\<lparr>selected := False\<rparr>)"
  by (simp add: deselect_def)

lemma deselect_others_only_deselects:
  "selected (heap (snd (deselect_others self es s)) r) \<Longrightarrow> selected (heap s r)"
proof (induction es arbitrary: s)
  case Nil
  then show ?case by simp
next
  case (Cons e es)
  show ?case
  proof (cases "selected (heap s e) \<and> e \<noteq> self")
    case False
    then show ?thesis using Cons by auto
  next
    case True
    obtain out s' where d: "deselect e s = (out, s')" by (cases "deselect e s")
    have h: "heap s' = (heap s)(e := (heap s e)\<lparr>selected := False\<rparr>)"
      using heap_deselect [of e s] d by simp
    have "selected (heap s' r)"
    proof (cases out)
      case Normal
      then show ?thesis using Cons.prems True d Cons.IH [of s'] by simp
    next
      case (Raised err)
      then show ?thesis using Cons.prems True d by simp
    qed
    then show ?thesis using h by (simp split: if_splits)
  qed
qed

lemma deselect_others_deselects:
  "fst (deselect_others self es s) = Normal \<Longrightarrow> e \<in> set es \<Longrightarrow> e \<noteq> self \<Longrightarrow>
   \<not> selected (heap (snd (deselect_others self es s)) e)"
proof (induction es arbitrary: s)
  case Nil
  then show ?case by simp
next
  case (Cons a es)
  show ?case
  proof (cases "selected (heap s a) \<and> a \<noteq> self")
    case False
    show ?thesis
    proof (cases "e \<in> set es")
      case True
      then show ?thesis using Cons False by auto
    next
      case notin: False
      then have "e = a" using Cons.prems by simp
      then have "\<not> selected (heap s e)" using False Cons.prems by simp
      then show ?thesis using deselect_others_only_deselects by blast
    qed
  next
    case True
    obtain out s' where d: "deselect a s = (out, s')" by (cases "deselect a s")
    have h: "heap s' = (heap s)(a := (heap s a)\<lparr>selected := False\<rparr>)"
      using heap_deselect [of a s] d by simp
    have out: "out = Normal"
      using Cons.prems(1) True d by (cases out) simp_all
    have eq: "deselect_others self (a # es) s = deselect_others self es s'"
      using True d out by simp
    show ?thesis
    proof (cases "e \<in> set es")
      case True
      then show ?thesis using Cons.IH [of s'] Cons.prems eq by simp
    next
      case notin: False
      then have "e = a" using Cons.prems by simp
      then have "\<not> selected (heap s' e)" using h by simp
      then show ?thesis using deselect_others_only_deselects eq by metis
    qed
  qed
qed

text \<open>
  C5. After a call of \<^verbatim>\<open>select()\<close> that returns, the widget is selected and every other
  member of its \<^verbatim>\<open>exclusive_to\<close> group is deselected, so that at most one member of the group
  is selected. When the call raises instead, in the rendering of a member that it deselects,
  a group with at most one selected member still has at most one. Of three widgets A, B, C
  in one group with B selected, \<^verbatim>\<open>A.select()\<close> leaves A selected and B and C deselected.
\<close>

theorem select_leaves_at_most_one_selected:
  "(fst (select self s) = Normal \<longrightarrow>
      selected (heap (snd (select self s)) self) \<and>
      (\<forall>e \<in> set (exclusive_to (heap s self)).
         e \<noteq> self \<longrightarrow> \<not> selected (heap (snd (select self s)) e)) \<and>
      (\<forall>a \<in> set (exclusive_to (heap s self)). \<forall>b \<in> set (exclusive_to (heap s self)).
         selected (heap (snd (select self s)) a) \<and> selected (heap (snd (select self s)) b)
         \<longrightarrow> a = b)) \<and>
   (fst (select self s) \<noteq> Normal \<longrightarrow>
      (\<forall>a \<in> set (exclusive_to (heap s self)). \<forall>b \<in> set (exclusive_to (heap s self)).
         selected (heap s a) \<and> selected (heap s b) \<longrightarrow> a = b) \<longrightarrow>
      (\<forall>a \<in> set (exclusive_to (heap s self)). \<forall>b \<in> set (exclusive_to (heap s self)).
         selected (heap (snd (select self s)) a) \<and> selected (heap (snd (select self s)) b)
         \<longrightarrow> a = b))"
proof -
  let ?g = "exclusive_to (heap s self)"
  obtain out s' where d: "deselect_others self ?g s = (out, s')"
    by (cases "deselect_others self ?g s")
  have mono: "selected (heap s' r) \<Longrightarrow> selected (heap s r)" for r
    using deselect_others_only_deselects [of self ?g s r] d by simp
  show ?thesis
  proof (cases out)
    case Normal
    have sel: "select self s = update self (set_selected self True s')"
      using d Normal by (simp add: select_def)
    have h: "heap (snd (select self s)) = (heap s')(self := (heap s' self)\<lparr>selected := True\<rparr>)"
      by (simp add: sel)
    have a: "selected (heap (snd (select self s)) self)"
      by (simp add: h)
    have b: "\<not> selected (heap (snd (select self s)) e)" if "e \<in> set ?g" "e \<noteq> self" for e
      using deselect_others_deselects [of self ?g s e] d Normal that by (simp add: h)
    have c: "\<forall>a \<in> set ?g. \<forall>b \<in> set ?g.
         selected (heap (snd (select self s)) a) \<and> selected (heap (snd (select self s)) b)
         \<longrightarrow> a = b"
      using b by blast
    from a b c show ?thesis by blast
  next
    case (Raised err)
    have sel: "select self s = (Raised err, s')"
      using d Raised by (simp add: select_def)
    have "selected (heap (snd (select self s)) r) \<Longrightarrow> selected (heap s r)" for r
      using mono [of r] by (simp add: sel)
    then show ?thesis
      by (simp add: sel)
  qed
qed

theorem select_leaves_at_most_one_selected_witness:
  "fst (select 0 three_state) = Normal \<and>
   exclusive_to (heap three_state 0) = [0, 1, 2] \<and>
   exclusive_to (heap three_state 1) = [0, 1, 2] \<and>
   exclusive_to (heap three_state 2) = [0, 1, 2] \<and>
   \<not> selected (heap three_state 0) \<and> selected (heap three_state 1) \<and>
   \<not> selected (heap three_state 2) \<and>
   selected (heap (snd (select 0 three_state)) 0) \<and>
   \<not> selected (heap (snd (select 0 three_state)) 1) \<and>
   \<not> selected (heap (snd (select 0 three_state)) 2)"
proof -
  have g: "exclusive_to (heap three_state 0) = [0, 1, 2]"
    "exclusive_to (heap three_state 1) = [0, 1, 2]"
    "exclusive_to (heap three_state 2) = [0, 1, 2]"
    "\<not> selected (heap three_state 0)" "selected (heap three_state 1)"
    "\<not> selected (heap three_state 2)"
    by (simp_all add: three_state_def ElementList_init_def plain_def GUIElement_init_def Let_def)
  have n: "fst (select 0 three_state) = Normal"
    by code_simp
  show ?thesis
    using g n select_leaves_at_most_one_selected [of 0 three_state] by simp
qed

section \<open>The trace of the input loop\<close>

lemma cleanups_print_pos [simp]: "cleanups (print_pos t px py f b s) = cleanups s"
  by (simp add: cleanups_def print_pos_def)

lemma cleanups_put [simp]: "cleanups (put r w s) = cleanups s"
  by (simp add: cleanups_def put_def)

lemma cleanups_set_selected [simp]: "cleanups (set_selected r b s) = cleanups s"
  by (simp add: cleanups_def set_selected_def)

lemma cleanups_init [simp]: "cleanups (init s) = cleanups s"
  by (simp add: cleanups_def init_def)

lemma cleanups_update [simp]: "cleanups (snd (update r s)) = cleanups s"
  by (simp add: update_def GUIElement_update_def GUICounter_update_def GUIHiddenList_update_def
      Let_def split: cls.splits sum.splits)

lemma cleanups_deselect [simp]: "cleanups (snd (deselect r s)) = cleanups s"
  by (simp add: deselect_def)

lemma cleanups_deselect_others [simp]:
  "cleanups (snd (deselect_others self es s)) = cleanups s"
proof (induction es arbitrary: s)
  case Nil
  then show ?case by simp
next
  case (Cons e es)
  obtain out s' where d: "deselect e s = (out, s')" by (cases "deselect e s")
  have "cleanups s' = cleanups s"
    using cleanups_deselect [of e s] d by simp
  then show ?case
    using Cons.IH [of s'] Cons.IH [of s] d by (cases out) simp_all
qed

lemma cleanups_select [simp]: "cleanups (snd (select r s)) = cleanups s"
proof -
  obtain out s' where d: "deselect_others r (exclusive_to (heap s r)) s = (out, s')"
    by (cases "deselect_others r (exclusive_to (heap s r)) s")
  have "cleanups s' = cleanups s"
    using cleanups_deselect_others [of r "exclusive_to (heap s r)" s] d by simp
  then show ?thesis
    using d by (cases out) (simp_all add: select_def)
qed

lemma cleanups_increase [simp]: "cleanups (snd (increase r s)) = cleanups s"
  by (simp add: increase_def GUICounter_increase_def GUIHiddenList_increase_def
      split: cls.splits)

lemma cleanups_decrease [simp]: "cleanups (snd (decrease r s)) = cleanups s"
  by (simp add: decrease_def GUICounter_decrease_def GUIHiddenList_decrease_def
      split: cls.splits)

lemma cleanups_select_current [simp]: "cleanups (snd (select_current l s)) = cleanups s"
  by (simp add: select_current_def split: sum.splits)

lemma move_left_keeps [simp]:
  "cleanups (snd (snd (move_left l s))) = cleanups s"
  "elems (fst (snd (move_left l s))) = elems l"
  by (simp_all add: move_left_def Let_def split: prod.splits)
     (metis cleanups_select_current snd_conv)

lemma move_right_keeps [simp]:
  "cleanups (snd (snd (move_right l s))) = cleanups s"
  "elems (fst (snd (move_right l s))) = elems l"
  by (simp_all add: move_right_def Let_def split: prod.splits)
     (metis cleanups_select_current snd_conv)

lemma on_left_right_keeps [simp]:
  "cleanups (snd (snd (on_left_right key l s))) = cleanups s"
  "elems (fst (snd (on_left_right key l s))) = elems l"
  by (simp_all add: on_left_right_def)

lemma on_up_down_keeps [simp]: "cleanups (snd (on_up_down key l s)) = cleanups s"
  by (simp add: on_up_down_def split: sum.splits)

lemma cleanups_update_each [simp]: "cleanups (snd (update_each es s)) = cleanups s"
proof (induction es arbitrary: s)
  case Nil
  then show ?case by simp
next
  case (Cons e es)
  obtain out s' where d: "update e s = (out, s')" by (cases "update e s")
  have "cleanups s' = cleanups s"
    using cleanups_update [of e s] d by simp
  then show ?case
    using Cons.IH [of s'] d by (cases out) simp_all
qed

lemma handle_key_keeps:
  assumes "handle_key opts key l s = (st, l', s')"
  shows "cleanups s' = cleanups s" and "elems l' = elems l"
    and "st = Break \<Longrightarrow> auto_enter opts \<and> key = ''enter''"
proof -
  obtain o1 l1 s1 where a: "(if auto_left_right opts then on_left_right key l s else (Normal, l, s))
      = (o1, l1, s1)"
    by (metis prod_cases3)
  have a1: "cleanups s1 = cleanups s \<and> elems l1 = elems l"
  proof (cases "auto_left_right opts")
    case True
    then have "s1 = snd (snd (on_left_right key l s))" "l1 = fst (snd (on_left_right key l s))"
      using a by simp_all
    then show ?thesis by simp
  next
    case False
    then show ?thesis using a by simp
  qed
  obtain o2 s2 where b: "(if auto_up_down opts then on_up_down key l1 s1 else (Normal, s1))
      = (o2, s2)"
    by (metis surj_pair)
  have b1: "cleanups s2 = cleanups s1"
  proof (cases "auto_up_down opts")
    case True
    then have "s2 = snd (on_up_down key l1 s1)"
      using b by simp
    then show ?thesis by simp
  next
    case False
    then show ?thesis using b by simp
  qed
  have r: "(st, l', s') =
     (case o1 of
        Raised e \<Rightarrow> (Stop e, l1, s1)
      | Normal \<Rightarrow>
          (case o2 of
             Raised e \<Rightarrow> (Stop e, l1, s2)
           | Normal \<Rightarrow>
               if auto_esc opts \<and> key = ''esc'' then (Stop SystemExit, l1, s2)
               else if auto_enter opts \<and> key = ''enter'' then (Break, l1, s2)
               else (Yield key, l1, s2)))"
    using assms a b unfolding handle_key_def by (auto split: outcome.splits if_splits)
  show "cleanups s' = cleanups s"
    using r a1 b1 by (auto split: outcome.splits if_splits)
  show "elems l' = elems l"
    using r a1 by (auto split: outcome.splits if_splits)
  show "st = Break \<Longrightarrow> auto_enter opts \<and> key = ''enter''"
    using r by (auto split: outcome.splits if_splits)
qed

lemma screen_clear:
  "screen (clear r s) = screen s @ clear_events (heap s) r" "heap (clear r s) = heap s"
  by (simp_all add: clear_def GUIElement_clear_def GUICounter_clear_def GUIHiddenList_clear_def
      cleanup_def print_pos_def clear_events_def blank_width_def Let_def split: cls.splits)

lemma screen_clear_each:
  "screen (clear_each rs s) = screen s @ concat (map (clear_events (heap s)) rs) \<and>
   heap (clear_each rs s) = heap s"
  by (induction rs arbitrary: s) (simp_all add: screen_clear)

lemma screen_clear_all:
  "screen (clear_all l s) = screen s @ concat (map (clear_events (heap s)) (elems l)) @ [ListCleanup]"
  "heap (clear_all l s) = heap s"
  by (simp_all add: clear_all_def list_cleanup_def screen_clear_each)

lemma loop_cleanup:
  "loop opts want inp l s = (e, ks, l', s') \<Longrightarrow>
   elems l' = elems l \<and>
   (e = StopIteration \<longrightarrow>
      auto_enter opts \<and>
      (\<exists>mid. cleanups mid = cleanups s \<and> s' = (if clean opts then clear_all l' mid else mid))) \<and>
   (e \<noteq> StopIteration \<longrightarrow> cleanups s' = cleanups s)"
proof (induction opts want inp l s arbitrary: e ks l' s' rule: loop.induct)
  case (1 opts want inp l s)
  show ?case
  proof (cases "read_key inp")
    case None
    then show ?thesis using "1.prems" by (auto simp: loop.simps)
  next
    case (Some kr)
    obtain k rest where kr: "kr = (k, rest)" by (cases kr)
    show ?thesis
    proof (cases k)
      case (Inl err)
      then show ?thesis using "1.prems" Some kr by (auto simp: loop.simps)
    next
      case (Inr key)
      obtain st l1 s1 where h: "handle_key opts key l s = (st, l1, s1)"
        by (metis prod_cases3)
      note hk = handle_key_keeps [OF h]
      show ?thesis
      proof (cases st)
        case (Stop err)
        then show ?thesis
          using "1.prems" Some kr Inr h hk by (auto simp: loop.simps)
      next
        case Break
        then have "e = StopIteration" "l' = l1"
          "s' = (if clean opts then clear_all l1 s1 else s1)"
          using "1.prems" Some kr Inr h by (simp_all add: loop.simps)
        then show ?thesis
          using hk Break by auto
      next
        case (Yield tok)
        show ?thesis
        proof (cases "want = Some 1")
          case True
          then show ?thesis
            using "1.prems" Some kr Inr h hk Yield by (auto simp: loop.simps)
        next
          case False
          obtain e2 ks2 l2 s2 where
            rec: "loop opts (map_option (\<lambda>n. n - 1) want) rest l1 s1 = (e2, ks2, l2, s2)"
            by (metis prod_cases4)
          have res: "e = e2" "l' = l2" "s' = s2"
            using "1.prems" Some kr Inr h Yield False rec
            by (simp_all add: loop.simps [of opts want inp] yield_def)
          have ih: "elems l2 = elems l1 \<and>
             (e2 = StopIteration \<longrightarrow>
                auto_enter opts \<and>
                (\<exists>mid. cleanups mid = cleanups s1 \<and>
                       s2 = (if clean opts then clear_all l2 mid else mid))) \<and>
             (e2 \<noteq> StopIteration \<longrightarrow> cleanups s2 = cleanups s1)"
            using "1.IH" [OF Some kr [symmetric] Inr h [symmetric] Yield refl False rec] .
          show ?thesis
            using ih res hk by auto
        qed
      qed
    qed
  qed
qed

lemma cleanups_clear_events: "filter is_cleanup (concat (map (clear_events h) rs)) = map ElementCleanup rs"
  by (induction rs) (simp_all add: clear_events_def)

lemma cleanups_clear_all:
  "cleanups (clear_all l s) = cleanups s @ map ElementCleanup (elems l) @ [ListCleanup]"
  by (simp add: cleanups_def screen_clear_all cleanups_clear_events)

text \<open>
  C7, as the code has it. In a run of \<^verbatim>\<open>key_presses\<close> with \<^verbatim>\<open>clean\<close> true, the generator ends
  its sequence only by \<^verbatim>\<open>auto_enter\<close>; then every widget of the list is cleared, in order
  and once, and after them the \<^verbatim>\<open>cleanup()\<close> hook of the list runs. A run that ends in another
  way, by the consumer abandoning the generator, by an exception, or that waits for input,
  clears no widget and runs no hook.
\<close>

theorem clean_runs_when_enter_ends_the_sequence:
  assumes "clean opts"
  shows "(fst (key_presses opts want inp l s) = StopIteration \<longrightarrow>
            auto_enter opts \<and>
            (\<exists>mid. cleanups mid = cleanups s \<and>
                   screen (snd (snd (snd (key_presses opts want inp l s))))
                     = screen mid @ concat (map (clear_events (heap mid)) (elems l))
                         @ [ListCleanup]) \<and>
            cleanups (snd (snd (snd (key_presses opts want inp l s))))
              = cleanups s @ map ElementCleanup (elems l) @ [ListCleanup]) \<and>
         (fst (key_presses opts want inp l s) \<noteq> StopIteration \<longrightarrow>
            cleanups (snd (snd (snd (key_presses opts want inp l s)))) = cleanups s)"
proof (cases "want = Some 0")
  case True
  then show ?thesis by (simp add: key_presses_def)
next
  case False
  obtain o1 s1 where a: "select_current l (init s) = (o1, s1)"
    by (cases "select_current l (init s)")
  have c1: "cleanups s1 = cleanups s"
    using cleanups_select_current [of l "init s"] a by simp
  show ?thesis
  proof (cases o1)
    case (Raised err)
    then show ?thesis using False a c1 by (simp add: key_presses_def)
  next
    case Normal
    obtain o2 s2 where b: "update_each (elems l) s1 = (o2, s2)"
      by (cases "update_each (elems l) s1")
    have c2: "cleanups s2 = cleanups s"
      using cleanups_update_each [of "elems l" s1] b c1 by simp
    show ?thesis
    proof (cases o2)
      case (Raised err)
      then show ?thesis using False a Normal b c2 by (simp add: key_presses_def)
    next
      case n2: Normal
      obtain e ks l' s' where r: "loop opts want inp l s2 = (e, ks, l', s')"
        by (metis prod_cases4)
      have k: "key_presses opts want inp l s = (e, ks, l', s')"
        using False a Normal b n2 r by (simp add: key_presses_def)
      note lc = loop_cleanup [OF r]
      show ?thesis
      proof (cases "e = StopIteration")
        case True
        then obtain mid where m: "cleanups mid = cleanups s2" "s' = clear_all l' mid"
          and ae: "auto_enter opts"
          using lc assms by auto
        have el: "elems l' = elems l" using lc by simp
        have "screen s' = screen mid @ concat (map (clear_events (heap mid)) (elems l))
                 @ [ListCleanup]"
          using m el by (simp add: screen_clear_all)
        moreover have "cleanups s' = cleanups s @ map ElementCleanup (elems l) @ [ListCleanup]"
          using m el c2 by (simp add: cleanups_clear_all)
        ultimately show ?thesis
          using True ae m c2 k by auto
      next
        case False
        then show ?thesis using lc c2 k by simp
      qed
    qed
  qed
qed

theorem clean_runs_when_enter_ends_the_sequence_witness:
  "clean up_down_enter_clean \<and>
   fst (key_presses up_down_enter_clean None up_up_enter two_list two_counters) = StopIteration \<and>
   cleanups (snd (snd (snd (key_presses up_down_enter_clean None up_up_enter two_list
                              two_counters))))
     = [ElementCleanup 0, ElementCleanup 1, ListCleanup]"
proof -
  have c: "clean up_down_enter_clean"
    by (simp add: up_down_enter_clean_def)
  have e: "fst (key_presses up_down_enter_clean None up_up_enter two_list two_counters)
             = StopIteration"
    by code_simp
  have s: "cleanups two_counters = []" "elems two_list = [0, 1]"
    by (simp_all add: cleanups_def two_counters_def two_list_def)
  show ?thesis
    using c e s clean_runs_when_enter_ends_the_sequence
      [OF c, of None up_up_enter two_list two_counters]
    by simp
qed

text \<open>
  C7, as stated: with \<^verbatim>\<open>clean\<close> true, a consumer that takes one key and abandons the generator
  leaves every widget on the screen, and no hook has run.
\<close>

theorem abandoned_generator_is_not_cleaned_counterexample:
  "clean up_down_enter_clean \<and>
   key_presses up_down_enter_clean (Some 1) up_up_enter two_list two_counters
     = (GeneratorExit, [''up''], two_list,
        snd (snd (snd (key_presses up_down_enter_clean (Some 1) up_up_enter two_list
                         two_counters)))) \<and>
   cleanups (snd (snd (snd (key_presses up_down_enter_clean (Some 1) up_up_enter two_list
                              two_counters)))) = []"
proof -
  have "fst (key_presses up_down_enter_clean (Some 1) up_up_enter two_list two_counters)
          = GeneratorExit"
    "fst (snd (key_presses up_down_enter_clean (Some 1) up_up_enter two_list two_counters))
          = [''up'']"
    "fst (snd (snd (key_presses up_down_enter_clean (Some 1) up_up_enter two_list two_counters)))
          = two_list"
    "cleanups (snd (snd (snd (key_presses up_down_enter_clean (Some 1) up_up_enter two_list
                              two_counters)))) = []"
    "clean up_down_enter_clean"
    by code_simp+
  then show ?thesis
    by (metis prod.collapse)
qed

section \<open>A run of the input loop over counters\<close>

lemma unselected_selected [simp]: "unselected (w\<lparr>selected := b\<rparr>) = unselected w"
  by (simp add: unselected_def)

lemma unselected_fields:
  "cls (unselected w) = cls w" "align (unselected w) = align w" "count (unselected w) = count w"
  "bounds (unselected w) = bounds w" "wrap_bounds (unselected w) = wrap_bounds w"
  "exclusive_to (unselected w) = exclusive_to w"
  by (simp_all add: unselected_def)

lemma same_fields:
  assumes "unselected w' = unselected w"
  shows "cls w' = cls w" "align w' = align w" "count w' = count w"
    "bounds w' = bounds w" "wrap_bounds w' = wrap_bounds w"
proof -
  show "cls w' = cls w" using unselected_fields(1) [of w'] unselected_fields(1) [of w] assms by simp
  show "align w' = align w" using unselected_fields(2) [of w'] unselected_fields(2) [of w] assms by simp
  show "count w' = count w" using unselected_fields(3) [of w'] unselected_fields(3) [of w] assms by simp
  show "bounds w' = bounds w" using unselected_fields(4) [of w'] unselected_fields(4) [of w] assms by simp
  show "wrap_bounds w' = wrap_bounds w"
    using unselected_fields(5) [of w'] unselected_fields(5) [of w] assms by simp
qed

lemma counter_ok_same: "unselected w' = unselected w \<Longrightarrow> counter_ok w \<Longrightarrow> counter_ok w'"
  using same_fields(1) [of w' w] same_fields(2) [of w' w] by (simp add: counter_ok_def)

lemma update_counter_ok: "counter_ok (heap s r) \<Longrightarrow> fst (update r s) = Normal"
  by (auto simp: counter_ok_def update_def GUICounter_update_def Let_def)

lemma deselect_counter_ok:
  assumes "counter_ok (heap s r)"
  shows "fst (deselect r s) = Normal"
proof -
  have "counter_ok (heap (set_selected r False s) r)"
    using assms by (simp add: counter_ok_def)
  then show ?thesis by (simp add: deselect_def update_counter_ok)
qed

lemma unselected_deselect: "unselected (heap (snd (deselect e s)) r) = unselected (heap s r)"
  by (simp add: heap_deselect)

lemma deselect_others_counters:
  "(\<forall>e \<in> set es. counter_ok (heap s e)) \<Longrightarrow>
   fst (deselect_others self es s) = Normal \<and>
   (\<forall>r. unselected (heap (snd (deselect_others self es s)) r) = unselected (heap s r))"
proof (induction es arbitrary: s)
  case Nil
  then show ?case by simp
next
  case (Cons e es)
  show ?case
  proof (cases "selected (heap s e) \<and> e \<noteq> self")
    case False
    then show ?thesis using Cons by auto
  next
    case True
    obtain out s' where d: "deselect e s = (out, s')" by (cases "deselect e s")
    have out: "out = Normal"
      using deselect_counter_ok [of s e] Cons.prems d by simp
    have u: "unselected (heap s' r) = unselected (heap s r)" for r
      using unselected_deselect [of e s r] d by simp
    have "\<forall>a \<in> set es. counter_ok (heap s' a)"
      using Cons.prems u counter_ok_same by (metis list.set_intros(2))
    from Cons.IH [OF this] show ?thesis
      using True d out by (simp add: u)
  qed
qed

lemma select_counters:
  assumes "\<forall>e \<in> set (exclusive_to (heap s self)). counter_ok (heap s e)"
    and "counter_ok (heap s self)"
  shows "fst (select self s) = Normal"
    and "unselected (heap (snd (select self s)) r) = unselected (heap s r)"
proof -
  let ?g = "exclusive_to (heap s self)"
  obtain out s' where d: "deselect_others self ?g s = (out, s')"
    by (cases "deselect_others self ?g s")
  have out: "out = Normal" and u: "\<And>r. unselected (heap s' r) = unselected (heap s r)"
    using deselect_others_counters [OF assms(1), of self] d by simp_all
  have sel: "select self s = update self (set_selected self True s')"
    using d out by (simp add: select_def)
  have "counter_ok (heap s' self)"
    using assms(2) u [of self] by (rule_tac counter_ok_same)
  then have "counter_ok (heap (set_selected self True s') self)"
    by (simp add: counter_ok_def)
  then show "fst (select self s) = Normal"
    by (simp add: sel update_counter_ok)
  show "unselected (heap (snd (select self s)) r) = unselected (heap s r)"
    by (simp add: sel u)
qed

lemma update_each_counters:
  "(\<forall>e \<in> set es. counter_ok (heap s e)) \<Longrightarrow>
   fst (update_each es s) = Normal \<and> heap (snd (update_each es s)) = heap s"
proof (induction es arbitrary: s)
  case Nil
  then show ?case by simp
next
  case (Cons e es)
  obtain out s' where d: "update e s = (out, s')" by (cases "update e s")
  have out: "out = Normal"
    using update_counter_ok [of s e] Cons.prems d by simp
  have h: "heap s' = heap s"
    using heap_update [of e s] d by simp
  have "\<forall>a \<in> set es. counter_ok (heap s' a)"
    using Cons.prems h by simp
  from Cons.IH [OF this] show ?case
    using d out h by simp
qed


lemma keys_up: "keys [0xE0, 0x48] = Some ''up''"
  by code_simp

lemma keys_enter: "keys [0x0D] = Some ''enter''"
  by code_simp

lemma read_key_up: "read_key (0xE0 # 0x48 # rest) = Some (Inr ''up'', rest)"
  by (simp add: read_key_def getch_def lookup_def keys_up)

lemma read_key_enter: "read_key (0x0D # rest) = Some (Inr ''enter'', rest)"
  by (simp add: read_key_def getch_def lookup_def keys_enter)

lemma counter_ok_increase_count: "counter_ok w \<Longrightarrow> counter_ok (increase_count w)"
  by (simp add: counter_ok_def increase_count_def)

lemma increase_counter_ok:
  assumes "counter_ok (heap s r)"
  shows "fst (increase r s) = Normal"
    and "heap (snd (increase r s)) = (heap s)(r := increase_count (heap s r))"
proof -
  have c: "cls (heap s r) = GUICounter" using assms by (simp add: counter_ok_def)
  have "counter_ok (heap (put r (increase_count (heap s r)) s) r)"
    using assms by (simp add: counter_ok_increase_count)
  then show "fst (increase r s) = Normal"
    using c by (simp add: increase_def GUICounter_increase_def update_counter_ok)
  show "heap (snd (increase r s)) = (heap s)(r := increase_count (heap s r))"
    using c by (rule heap_increase_counter)
qed

lemma handle_key_up:
  assumes "auto_up_down opts" and "list_current l = Inr r" and "counter_ok (heap s r)"
  shows "handle_key opts ''up'' l s = (Yield ''up'', l, snd (increase r s))"
proof -
  have "on_up_down ''up'' l s = increase r s"
    using assms(2) by (simp add: on_up_down_def)
  then have b: "on_up_down ''up'' l s = (Normal, snd (increase r s))"
    using increase_counter_ok(1) [OF assms(3)] by (simp add: prod_eq_iff)
  show ?thesis
    using assms(1) by (simp add: handle_key_def on_left_right_def b)
qed

lemma handle_key_enter:
  assumes "auto_enter opts"
  shows "handle_key opts ''enter'' l s = (Break, l, s)"
proof -
  have b: "on_up_down ''enter'' l s = (Normal, s)"
    by (simp add: on_up_down_def)
  show ?thesis
    using assms by (simp add: handle_key_def on_left_right_def b)
qed

lemma heap_clear_all_if: "heap (if c then clear_all l s else s) = heap s"
  by (simp add: screen_clear_all)

lemma unselected_increase_count: "unselected (increase_count w) = increase_count (unselected w)"
  by (simp add: increase_count_def unselected_def)

lemma count_increase_count_same:
  "unselected w' = unselected w \<Longrightarrow> count (increase_count w') = count (increase_count w)"
  using same_fields(3) [of w' w] same_fields(4) [of w' w] same_fields(5) [of w' w]
  by (simp add: increase_count_def)

text \<open>
  C3, as the code has it. For a list of two distinct counters that render, the first one
  current, with \<^verbatim>\<open>auto_up_down\<close> and \<^verbatim>\<open>auto_enter\<close> true and a consumer that asks for at least
  three keys: on the bytes of up, up, enter the generator yields exactly the two tokens
  \<^verbatim>\<open>'up'\<close>, \<^verbatim>\<open>'up'\<close> and then ends; \<^verbatim>\<open>'enter'\<close> ends the sequence and is not yielded. The first
  counter has been increased twice, which is by exactly 2 when neither step met its upper
  bound, and the second counter is as before.
\<close>

theorem up_up_enter_yields_up_up:
  assumes "cls (heap s r0) = GUICounter" and "cls (heap s r1) = GUICounter"
    and "align (heap s r0) = ''left'' \<or> align (heap s r0) = ''right''"
    and "align (heap s r1) = ''left'' \<or> align (heap s r1) = ''right''"
    and "r0 \<noteq> r1"
    and "set (exclusive_to (heap s r0)) \<subseteq> {r0, r1}"
    and "elems l = [r0, r1]" and "current_index l = 0"
    and "auto_up_down opts" and "auto_enter opts"
    and "want \<noteq> Some 0" and "want \<noteq> Some 1" and "want \<noteq> Some 2"
  shows "\<exists>s'. key_presses opts want (0xE0 # 0x48 # 0xE0 # 0x48 # 0x0D # rest) l s
                = (StopIteration, [''up'', ''up''], l, s') \<and>
              count (heap s' r0) = count (increase_count (increase_count (heap s r0))) \<and>
              count (heap s' r1) = count (heap s r1) \<and>
              (\<forall>c. count (heap s r0) = Fin c \<and> Fin c \<noteq> snd (bounds (heap s r0)) \<and>
                   Fin (c + 1) \<noteq> snd (bounds (heap s r0))
                   \<longrightarrow> count (heap s' r0) = Fin (c + 2))"
proof -
  have ok0: "counter_ok (heap s r0)" and ok1: "counter_ok (heap s r1)"
    using assms(1-4) by (simp_all add: counter_ok_def)
  have cur: "list_current l = Inr r0"
    using assms(7,8) by (simp add: list_current_def)
  let ?s0 = "init s"
  have h0: "heap ?s0 = heap s" by (simp add: init_def)
  have grp: "\<forall>e \<in> set (exclusive_to (heap ?s0 r0)). counter_ok (heap ?s0 e)"
    using assms(6) ok0 ok1 h0 by auto
  define s1 where "s1 = snd (select r0 ?s0)"
  have sel: "select_current l ?s0 = (Normal, s1)"
    using select_counters(1) [OF grp] ok0 h0 cur
    by (simp add: select_current_def s1_def prod_eq_iff)
  have u1: "unselected (heap s1 r) = unselected (heap s r)" for r
    using select_counters(2) [OF grp, of r] ok0 h0 by (simp add: s1_def)
  have ok1': "\<forall>e \<in> set (elems l). counter_ok (heap s1 e)"
    using assms(7) ok0 ok1 u1 counter_ok_same by auto
  define s2 where "s2 = snd (update_each (elems l) s1)"
  have upd: "update_each (elems l) s1 = (Normal, s2)" and h2: "heap s2 = heap s1"
    using update_each_counters [OF ok1'] by (simp_all add: s2_def prod_eq_iff)
  have ok2: "counter_ok (heap s2 r0)"
    using ok1' assms(7) h2 by simp
  define s3 where "s3 = snd (increase r0 s2)"
  have h3: "heap s3 = (heap s2)(r0 := increase_count (heap s2 r0))"
    using increase_counter_ok(2) [OF ok2] by (simp add: s3_def)
  have k3: "handle_key opts ''up'' l s2 = (Yield ''up'', l, s3)"
    using handle_key_up [OF assms(9) cur ok2] by (simp add: s3_def)
  have ok3: "counter_ok (heap s3 r0)"
    using ok2 h3 by (simp add: counter_ok_increase_count)
  define s4 where "s4 = snd (increase r0 s3)"
  have h4: "heap s4 = (heap s3)(r0 := increase_count (heap s3 r0))"
    using increase_counter_ok(2) [OF ok3] by (simp add: s4_def)
  have k4: "handle_key opts ''up'' l s3 = (Yield ''up'', l, s4)"
    using handle_key_up [OF assms(9) cur ok3] by (simp add: s4_def)
  have k5: "handle_key opts ''enter'' l s4 = (Break, l, s4)"
    by (rule handle_key_enter [OF assms(10)])
  define s5 where "s5 = (if clean opts then clear_all l s4 else s4)"
  have h5: "heap s5 = heap s4"
    by (simp add: s5_def screen_clear_all)
  let ?w1 = "map_option (\<lambda>n. n - Suc 0) want"
  let ?w2 = "map_option (\<lambda>n. n - Suc 0) ?w1"
  have w1: "?w1 \<noteq> Some 1"
    using assms(11-13) by (cases want) auto
  have l3: "loop opts ?w2 (0x0D # rest) l s4 = (StopIteration, [], l, s5)"
    by (simp add: loop.simps [of _ _ "0x0D # rest"] read_key_enter k5 s5_def)
  have l2: "loop opts ?w1 (0xE0 # 0x48 # 0x0D # rest) l s3 = (StopIteration, [''up''], l, s5)"
    using w1 by (simp add: loop.simps [of _ _ "0xE0 # 0x48 # 0x0D # rest"] read_key_up k4 l3
        yield_def)
  have l1: "loop opts want (0xE0 # 0x48 # 0xE0 # 0x48 # 0x0D # rest) l s2
              = (StopIteration, [''up'', ''up''], l, s5)"
    using assms(12)
    by (simp add: loop.simps [of _ _ "0xE0 # 0x48 # 0xE0 # 0x48 # 0x0D # rest"] read_key_up k3
        l2 yield_def)
  have run: "key_presses opts want (0xE0 # 0x48 # 0xE0 # 0x48 # 0x0D # rest) l s
               = (StopIteration, [''up'', ''up''], l, s5)"
    using assms(11) by (simp add: key_presses_def sel upd l1)
  have c0: "count (heap s5 r0) = count (increase_count (increase_count (heap s2 r0)))"
    by (simp add: h5 h4 h3)
  have "unselected (increase_count (heap s2 r0)) = unselected (increase_count (heap s r0))"
    using u1 [of r0] h2 by (simp add: unselected_increase_count)
  then have "count (increase_count (increase_count (heap s2 r0)))
               = count (increase_count (increase_count (heap s r0)))"
    by (rule count_increase_count_same)
  then have a: "count (heap s5 r0) = count (increase_count (increase_count (heap s r0)))"
    using c0 by simp
  have b: "count (heap s5 r1) = count (heap s r1)"
    using assms(5) same_fields(3) [OF u1 [of r1]] by (simp add: h5 h4 h3 h2)
  have c: "count (heap s5 r0) = Fin (c + 2)"
    if "count (heap s r0) = Fin c" "Fin c \<noteq> snd (bounds (heap s r0))"
      "Fin (c + 1) \<noteq> snd (bounds (heap s r0))" for c
    using that a by (simp add: increase_count_def)
  have c': "\<forall>c. count (heap s r0) = Fin c \<and> Fin c \<noteq> snd (bounds (heap s r0)) \<and>
                   Fin (c + 1) \<noteq> snd (bounds (heap s r0))
                   \<longrightarrow> count (heap s5 r0) = Fin (c + 2)"
    using c by blast
  show ?thesis
    by (rule exI [of _ s5]) (intro conjI run a b c')
qed

theorem up_up_enter_yields_up_up_witness:
  "cls (heap two_counters 0) = GUICounter \<and> cls (heap two_counters 1) = GUICounter \<and>
   align (heap two_counters 0) = ''left'' \<and> align (heap two_counters 1) = ''left'' \<and>
   set (exclusive_to (heap two_counters 0)) \<subseteq> {0, 1} \<and>
   elems two_list = [0, 1] \<and> current_index two_list = 0 \<and>
   auto_up_down up_down_enter_clean \<and> auto_enter up_down_enter_clean \<and>
   count (heap two_counters 0) = Fin 0 \<and>
   (\<exists>s'. key_presses up_down_enter_clean None up_up_enter two_list two_counters
           = (StopIteration, [''up'', ''up''], two_list, s') \<and>
         count (heap s' 0) = Fin 2 \<and> count (heap s' 1) = Fin 0)"
proof -
  have h: "cls (heap two_counters 0) = GUICounter" "cls (heap two_counters 1) = GUICounter"
    "align (heap two_counters 0) = ''left'' \<or> align (heap two_counters 0) = ''right''"
    "align (heap two_counters 1) = ''left'' \<or> align (heap two_counters 1) = ''right''"
    "(0::nat) \<noteq> 1"
    "set (exclusive_to (heap two_counters 0)) \<subseteq> {0, 1}"
    "elems two_list = [0, 1]" "current_index two_list = 0"
    "auto_up_down up_down_enter_clean" "auto_enter up_down_enter_clean"
    "None \<noteq> Some (0::nat)" "None \<noteq> Some (1::nat)" "None \<noteq> Some (2::nat)"
    by (simp_all add: two_counters_def plain_counter_def GUICounter_init_def
        GUIElement_init_def two_list_def up_down_enter_clean_def)
  have v: "count (heap two_counters 0) = Fin 0" "count (heap two_counters 1) = Fin 0"
    "bounds (heap two_counters 0) = (NegInf, PosInf)"
    "align (heap two_counters 0) = ''left''" "align (heap two_counters 1) = ''left''"
    by (simp_all add: two_counters_def plain_counter_def GUICounter_init_def
        GUIElement_init_def)
  show ?thesis
    using h(1,2,6-10) v up_up_enter_yields_up_up [OF h, of "[]"]
    by (simp add: up_up_enter_def) blast
qed

text \<open>
  C3, as stated: the run yields two tokens, not the three tokens
  \<^verbatim>\<open>'up'\<close>, \<^verbatim>\<open>'up'\<close>, \<^verbatim>\<open>'enter'\<close>.
\<close>

theorem enter_is_not_yielded_counterexample:
  "fst (key_presses up_down_enter_clean None up_up_enter two_list two_counters) = StopIteration \<and>
   fst (snd (key_presses up_down_enter_clean None up_up_enter two_list two_counters))
     = [''up'', ''up''] \<and>
   fst (snd (key_presses up_down_enter_clean None up_up_enter two_list two_counters))
     \<noteq> [''up'', ''up'', ''enter'']"
  by code_simp

end
